theory Spec2Isabelle
  imports Main
begin

section \<open>Python strings\<close>

text \<open>
  A Python \<open>str\<close> is modelled as a \<^typ>\<open>string\<close>; a \<^typ>\<open>char\<close> stands for the code point
  of the same number (0 to 255). The character classes below are those of Python 3 on
  these code points.
\<close>

definition code :: "char \<Rightarrow> nat" where
  "code c = of_char c"

text \<open>\<open>str.isspace\<close>, the set that \<open>str.strip()\<close> removes and that \<open>\\s\<close> matches.\<close>

definition isspace :: "char \<Rightarrow> bool" where
  "isspace c = (let n = code c in
     (9 \<le> n \<and> n \<le> 13) \<or> (28 \<le> n \<and> n \<le> 32) \<or> n = 133 \<or> n = 160)"

definition strip :: "string \<Rightarrow> string" where
  "strip s = rev (dropWhile isspace (rev (dropWhile isspace s)))"

text \<open>The decimal digits \<open>0\<close> to \<open>9\<close> (\<open>[0-9]\<close>, and \<open>\\d\<close> on these code points).\<close>

definition is_decimal :: "char \<Rightarrow> bool" where
  "is_decimal c = (48 \<le> code c \<and> code c \<le> 57)"

text \<open>\<open>str.isdigit\<close> on one character: the decimal digits and the superscripts 1, 2, 3.\<close>

definition isdigit_char :: "char \<Rightarrow> bool" where
  "isdigit_char c = (is_decimal c \<or> code c = 178 \<or> code c = 179 \<or> code c = 185)"

definition isdigit :: "string \<Rightarrow> bool" where
  "isdigit p = (p \<noteq> [] \<and> list_all isdigit_char p)"

definition is_ascii_alpha :: "char \<Rightarrow> bool" where
  "is_ascii_alpha c = (let n = code c in (65 \<le> n \<and> n \<le> 90) \<or> (97 \<le> n \<and> n \<le> 122))"

definition is_alnum :: "char \<Rightarrow> bool" where
  "is_alnum c = (is_ascii_alpha c \<or> is_decimal c)"

text \<open>\<open>str.lower\<close>: the upper-case letters of these code points move up by 32.\<close>

definition lower_char :: "char \<Rightarrow> char" where
  "lower_char c = (let n = code c in
     if (65 \<le> n \<and> n \<le> 90) \<or> (192 \<le> n \<and> n \<le> 222 \<and> n \<noteq> 215)
     then char_of (n + 32) else c)"

definition lower :: "string \<Rightarrow> string" where
  "lower s = map lower_char s"

text \<open>
  \<open>str.upper\<close>. The sharp s becomes \<open>SS\<close>. The upper-case forms of the micro sign (181)
  and of y with diaeresis (255) are code points above 255; these two characters are left
  in place, which changes no comparison with the text \<open>N/A\<close>.
\<close>

definition upper_char :: "char \<Rightarrow> string" where
  "upper_char c = (let n = code c in
     if (97 \<le> n \<and> n \<le> 122) \<or> (224 \<le> n \<and> n \<le> 254 \<and> n \<noteq> 247)
     then [char_of (n - 32)]
     else if n = 223 then ''SS'' else [c])"

definition upper :: "string \<Rightarrow> string" where
  "upper s = concat (map upper_char s)"

text \<open>\<open>s.startswith(p)\<close> and the substring test \<open>x in s\<close>.\<close>

definition startswith :: "string \<Rightarrow> string \<Rightarrow> bool" where
  "startswith s p = (take (length p) s = p)"

fun contains :: "string \<Rightarrow> string \<Rightarrow> bool" where
  "contains [] x = (x = [])"
| "contains (c # cs) x = (startswith (c # cs) x \<or> contains cs x)"

text \<open>\<open>s.split(sep)\<close> for a one-character separator, and \<open>sep.join(parts)\<close>.\<close>

fun split :: "char \<Rightarrow> string \<Rightarrow> string list" where
  "split sep [] = [[]]"
| "split sep (c # cs) =
     (if c = sep then [] # split sep cs
      else (case split sep cs of [] \<Rightarrow> [[c]] | p # ps \<Rightarrow> (c # p) # ps))"

fun join :: "string \<Rightarrow> string list \<Rightarrow> string" where
  "join sep [] = []"
| "join sep [p] = p"
| "join sep (p # q # ps) = p @ sep @ join sep (q # ps)"

subsection \<open>Integers and text\<close>

definition digit_val :: "char \<Rightarrow> nat" where
  "digit_val c = code c - 48"

definition digits_val :: "string \<Rightarrow> nat" where
  "digits_val p = foldl (\<lambda>acc c. 10 * acc + digit_val c) 0 p"

text \<open>
  \<open>int(s)\<close> and \<open>int(s, 10)\<close>: surrounding white space is dropped, one sign is allowed,
  and the digits may be grouped by single underscores. \<open>None\<close> is \<open>ValueError\<close>.
  The white space that \<open>int\<close> drops is not all of \<open>isspace\<close>. A text with more
  digits than \<open>sys.get_int_max_str_digits()\<close> is refused with \<open>ValueError\<close>; leading
  zeros count, underscores and the sign do not. The limit is the interpreter's default.
\<close>

definition max_str_digits :: nat where
  "max_str_digits = 4300"

definition is_int_space :: "char \<Rightarrow> bool" where
  "is_int_space c = (let n = code c in (9 \<le> n \<and> n \<le> 13) \<or> n = 32 \<or> n = 133 \<or> n = 160)"

definition int_digits :: "string \<Rightarrow> nat option" where
  "int_digits ds =
     (let groups = split (CHR ''_'') ds in
      if list_all (\<lambda>g. g \<noteq> [] \<and> list_all is_decimal g) groups
      then (if length (concat groups) > max_str_digits then None
            else Some (digits_val (concat groups)))
      else None)"

definition py_int :: "string \<Rightarrow> int option" where
  "py_int s =
     (case rev (dropWhile is_int_space (rev (dropWhile is_int_space s))) of
        [] \<Rightarrow> None
      | c # cs \<Rightarrow>
          if c = CHR ''-'' then map_option (\<lambda>n. - int n) (int_digits cs)
          else if c = CHR ''+'' then map_option int (int_digits cs)
          else map_option int (int_digits (c # cs)))"

text \<open>\<open>str(v)\<close> for an integer.\<close>

fun str_nat :: "nat \<Rightarrow> string" where
  "str_nat n = (if n < 10 then [char_of (48 + n)] else str_nat (n div 10) @ [char_of (48 + n mod 10)])"

declare str_nat.simps [simp del]

definition str_int :: "int \<Rightarrow> string" where
  "str_int v = (if v < 0 then CHR ''-'' # str_nat (nat (- v)) else str_nat (nat v))"

section \<open>IPv4 validation\<close>

text \<open>The loop over the four parts; \<open>Inl\<close> carries the reason code of the first failure.\<close>

fun octets_loop :: "string list \<Rightarrow> string list \<Rightarrow> string + string list" where
  "octets_loop canonical_parts [] = Inr canonical_parts"
| "octets_loop canonical_parts (p # ps) =
     (if p = [] then Inl ''empty_octet''
      else if startswith p ''-'' then Inl ''negative_octet''
      else if \<not> isdigit p then Inl ''non_numeric_octet''
      else (case py_int p of
              None \<Rightarrow> Inl ''parse_error''
            | Some v \<Rightarrow>
                if v < 0 \<or> v > 255 then Inl ''octet_out_of_range''
                else octets_loop (canonical_parts @ [str_int v]) ps))"

definition ipv4_validate_and_normalize :: "string \<Rightarrow> bool \<times> string \<times> string \<times> string" where
  "ipv4_validate_and_normalize ip_str =
     (if ip_str = [] \<or> upper (strip ip_str) \<in> {''N/A'', []} then (False, ip_str, [], ''missing'')
      else let s = strip ip_str in
        if CHR '':'' \<in> set s \<or> CHR ''%'' \<in> set s then (False, s, ''6'', ''ipv6_detected'')
        else let parts = split (CHR ''.'') s in
          if length parts \<noteq> 4 then (False, s, [], ''wrong_part_count'')
          else (case octets_loop [] parts of
                  Inl reason \<Rightarrow> (False, s, [], reason)
                | Inr canonical_parts \<Rightarrow> (True, join ''.'' canonical_parts, ''4'', ''ok'')))"


subsection \<open>Address scope, default subnet, reverse pointer\<close>

datatype py_error = IndexError | ValueError | AttributeError

text \<open>\<open>xs[i]\<close> for \<open>i \<ge> 0\<close>; \<open>None\<close> is \<open>IndexError\<close>.\<close>

definition idx :: "'a list \<Rightarrow> nat \<Rightarrow> 'a option" where
  "idx xs i = (if i < length xs then Some (xs ! i) else None)"

text \<open>\<open>a and b\<close> where evaluating \<open>b\<close> may raise: \<open>b\<close> is only looked at when \<open>a\<close> holds.\<close>

definition py_and :: "bool \<Rightarrow> bool option \<Rightarrow> bool option" where
  "py_and a b = (if a then b else Some False)"

text \<open>The chain of tests on the octets; \<open>None\<close> is an exception raised on the way.\<close>

definition classify_octets :: "int list \<Rightarrow> string option" where
  "classify_octets octets =
     (case idx octets 0 of
        None \<Rightarrow> None
      | Some o0 \<Rightarrow>
          if o0 = 10 then Some ''private_rfc1918''
          else (case py_and (o0 = 172) (map_option (\<lambda>o1. 16 \<le> o1 \<and> o1 \<le> 31) (idx octets 1)) of
            None \<Rightarrow> None
          | Some True \<Rightarrow> Some ''private_rfc1918''
          | Some False \<Rightarrow>
          (case py_and (o0 = 192) (map_option (\<lambda>o1. o1 = 168) (idx octets 1)) of
            None \<Rightarrow> None
          | Some True \<Rightarrow> Some ''private_rfc1918''
          | Some False \<Rightarrow>
          (case py_and (o0 = 169) (map_option (\<lambda>o1. o1 = 254) (idx octets 1)) of
            None \<Rightarrow> None
          | Some True \<Rightarrow> Some ''link_local_apipa''
          | Some False \<Rightarrow>
              if o0 = 127 then Some ''loopback'' else Some ''public_or_other''))))"

definition classify_ipv4_type :: "string \<Rightarrow> string" where
  "classify_ipv4_type ip =
     (case those (map py_int (split (CHR ''.'') ip)) of
        None \<Rightarrow> ''unknown''
      | Some octets \<Rightarrow> (case classify_octets octets of None \<Rightarrow> ''unknown'' | Some t \<Rightarrow> t))"

text \<open>\<open>default_subnet\<close> has no handler of its own: \<open>Inl\<close> is the exception it raises.\<close>

definition default_subnet :: "string \<Rightarrow> py_error + string" where
  "default_subnet ip =
     (if classify_ipv4_type ip = ''private_rfc1918'' then
        (case those (map py_int (split (CHR ''.'') ip)) of
           None \<Rightarrow> Inl ValueError
         | Some parts \<Rightarrow>
             (case (idx parts 0, idx parts 1, idx parts 2) of
                (Some p0, Some p1, Some p2) \<Rightarrow>
                  Inr (str_int p0 @ ''.'' @ str_int p1 @ ''.'' @ str_int p2 @ ''.0/24'')
              | _ \<Rightarrow> Inl IndexError))
      else Inr [])"

definition generate_reverse_ptr :: "string \<Rightarrow> bool \<Rightarrow> string" where
  "generate_reverse_ptr ip ip_valid =
     (if \<not> ip_valid then []
      else let octets = split (CHR ''.'') ip in
        (case (idx octets 3, idx octets 2, idx octets 1, idx octets 0) of
           (Some o3, Some o2, Some o1, Some o0) \<Rightarrow>
             o3 @ ''.'' @ o2 @ ''.'' @ o1 @ ''.'' @ o0 @ ''.in-addr.arpa''
         | _ \<Rightarrow> []))"

section \<open>Host names\<close>

text \<open>
  \<open>re.match\<close> of \<open>^[a-zA-Z0-9]([a-zA-Z0-9\-]{0,61}[a-zA-Z0-9])?$\<close>. In Python \<open>$\<close> also
  matches just before a line feed that ends the text.
\<close>

definition before_final_newline :: "string \<Rightarrow> string" where
  "before_final_newline h = (if h \<noteq> [] \<and> last h = CHR 0x0A then butlast h else h)"

definition label_re :: "string \<Rightarrow> bool" where
  "label_re h =
     (let t = before_final_newline h in
      t \<noteq> [] \<and> length t \<le> 63 \<and> is_alnum (hd t) \<and> is_alnum (last t)
      \<and> list_all (\<lambda>c. is_alnum c \<or> c = CHR ''-'') t)"

definition validate_hostname :: "string \<Rightarrow> bool \<times> string" where
  "validate_hostname hostname =
     (if hostname = [] \<or> strip hostname = [] then (False, ''missing'')
      else let h = strip hostname in
        if length h > 253 then (False, ''too_long'')
        else if \<not> label_re h then (False, ''invalid_format'')
        else (True, ''ok''))"

fun labels_loop :: "string list \<Rightarrow> bool \<times> string" where
  "labels_loop [] = (True, ''ok'')"
| "labels_loop (label # labels) =
     (if length label > 63 \<or> length label = 0 then (False, ''invalid_label_length'')
      else if \<not> label_re label then (False, ''invalid_label_format'')
      else labels_loop labels)"

definition validate_fqdn :: "string \<Rightarrow> bool \<times> string" where
  "validate_fqdn fqdn =
     (if fqdn = [] \<or> strip fqdn = [] then (False, ''missing'')
      else let f = strip fqdn in
        if CHR ''.'' \<notin> set f then (False, ''missing_domain'')
        else labels_loop (split (CHR ''.'') f))"

definition check_fqdn_consistency :: "string \<Rightarrow> string \<Rightarrow> bool" where
  "check_fqdn_consistency hostname fqdn =
     (if hostname = [] \<or> fqdn = [] then False
      else startswith (lower fqdn) (lower hostname @ ''.''))"

section \<open>MAC addresses\<close>

definition is_hex :: "char \<Rightarrow> bool" where
  "is_hex c = (let n = code c in
     (48 \<le> n \<and> n \<le> 57) \<or> (65 \<le> n \<and> n \<le> 70) \<or> (97 \<le> n \<and> n \<le> 102))"

text \<open>\<open>re.match\<close> of \<open>^[0-9A-Fa-f]{12}$\<close>.\<close>

definition mac_re :: "string \<Rightarrow> bool" where
  "mac_re cleaned =
     (let t = before_final_newline cleaned in length t = 12 \<and> list_all is_hex t)"

definition normalize_mac :: "string \<Rightarrow> bool \<times> string \<times> string" where
  "normalize_mac mac =
     (if mac = [] \<or> strip mac = [] then (False, [], ''missing'')
      else let m = strip mac;
               cleaned = filter (\<lambda>c. c \<notin> set ''-:.'') m in
        if \<not> mac_re cleaned then (False, m, ''invalid_format'')
        else (True,
              join '':'' (map (\<lambda>i. lower (take 2 (drop i cleaned))) [0, 2, 4, 6, 8, 10]),
              ''ok''))"


section \<open>Site names\<close>

text \<open>\<open>re.sub\<close> of \<open>C+\<close> for a character class \<open>C\<close>: every maximal run is replaced.\<close>

function sub_runs :: "(char \<Rightarrow> bool) \<Rightarrow> string \<Rightarrow> string \<Rightarrow> string" where
  "sub_runs C repl [] = []"
| "sub_runs C repl (c # cs) =
     (if C c then repl @ sub_runs C repl (dropWhile C cs) else c # sub_runs C repl cs)"
  by pat_completeness auto
termination
  by (relation "measure (\<lambda>(C, repl, s). length s)")
     (auto simp: less_Suc_eq_le length_dropWhile_le)

text \<open>\<open>\\w\<close>, the word characters that decide where \<open>\\b\<close> matches.\<close>

definition is_word :: "char \<Rightarrow> bool" where
  "is_word c = (let n = code c in
     (48 \<le> n \<and> n \<le> 57) \<or> (65 \<le> n \<and> n \<le> 90) \<or> n = 95 \<or> (97 \<le> n \<and> n \<le> 122)
     \<or> n = 170 \<or> n = 178 \<or> n = 179 \<or> n = 181 \<or> n = 185 \<or> n = 186
     \<or> (188 \<le> n \<and> n \<le> 190) \<or> (192 \<le> n \<and> n \<le> 214) \<or> (216 \<le> n \<and> n \<le> 246)
     \<or> (248 \<le> n \<and> n \<le> 255))"

text \<open>\<open>\\b\<close> between two neighbours, \<open>None\<close> being an end of the text.\<close>

definition word_boundary :: "char option \<Rightarrow> char option \<Rightarrow> bool" where
  "word_boundary left right =
     ((case left of None \<Rightarrow> False | Some c \<Rightarrow> is_word c)
      \<noteq> (case right of None \<Rightarrow> False | Some c \<Rightarrow> is_word c))"

definition first_char :: "string \<Rightarrow> char option" where
  "first_char s = (case s of [] \<Rightarrow> None | c # _ \<Rightarrow> Some c)"

text \<open>
  One alternative \<open>w\<close> of \<open>\\b(w1|w2)\\b\<close> under \<open>re.IGNORECASE\<close>, tried where \<open>rest\<close> begins
  and \<open>prev\<close> is the character before it.
\<close>

definition match_word_at :: "string \<Rightarrow> char option \<Rightarrow> string \<Rightarrow> bool" where
  "match_word_at w prev rest =
     (word_boundary prev (first_char rest)
      \<and> length w \<le> length rest
      \<and> lower (take (length w) rest) = lower w
      \<and> word_boundary (first_char (rev (take (length w) rest)))
                       (first_char (drop (length w) rest)))"

text \<open>
  \<open>re.sub(r'\\b(w1|w2)\\b', repl, s, flags=re.IGNORECASE)\<close>: the text is scanned from the
  left, the alternatives are tried in their order, and the scan goes on behind a match.
\<close>

function sub_words :: "string list \<Rightarrow> string \<Rightarrow> char option \<Rightarrow> string \<Rightarrow> string" where
  "sub_words alts repl prev [] = []"
| "sub_words alts repl prev (c # cs) =
     (case find (\<lambda>w. match_word_at w prev (c # cs)) alts of
        Some w \<Rightarrow>
          repl @ sub_words alts repl (first_char (rev (take (length w) (c # cs))))
                   (drop (length w - 1) cs)
      | None \<Rightarrow> c # sub_words alts repl (Some c) cs)"
  by pat_completeness auto
termination
  by (relation "measure (\<lambda>(alts, repl, prev, s). length s)") auto

text \<open>\<open>re.sub(r'([a-zA-Z])(\\d)', r'\\1 \\2', s)\<close>.\<close>

fun sub_letter_digit :: "string \<Rightarrow> string" where
  "sub_letter_digit (c # d # cs) =
     (if is_ascii_alpha c \<and> is_decimal d then c # CHR '' '' # d # sub_letter_digit cs
      else c # sub_letter_digit (d # cs))"
| "sub_letter_digit s = s"

definition normalize_site :: "string \<Rightarrow> string" where
  "normalize_site site =
     (if site = [] \<or> upper (strip site) \<in> {''N/A'', []} then []
      else let s = strip site;
               s = sub_runs (\<lambda>c. c \<in> set ''-_'') '' '' s;
               s = sub_runs isspace '' '' s;
               s = sub_words [''bldg'', ''building''] ''Building'' None s;
               s = sub_words [''campus''] ''Campus'' None s;
               s = sub_words [''hq''] ''HQ'' None s;
               s = sub_words [''lab''] ''Lab'' None s;
               s = sub_words [''dc''] ''DC'' None s;
               s = sub_letter_digit s;
               s = strip (sub_runs isspace '' '' s)
           in s)"


section \<open>Rows and the two model-backed stages\<close>

text \<open>
  A dictionary with text values, the declared parameter type of the device classifier;
  \<open>row_data.get(k, "")\<close> is \<open>get row_data k\<close>.
\<close>

type_synonym row = "string \<rightharpoonup> string"

definition get :: "row \<Rightarrow> string \<Rightarrow> string" where
  "get r k = (case r k of None \<Rightarrow> [] | Some v \<Rightarrow> v)"

text \<open>
  The language model is outside the program, so its answers are parameters.
  \<open>HAS_GEMINI\<close> is the module flag. \<open>device_reply r\<close> is what the \<open>try\<close> block of the
  device classifier obtains for row \<open>r\<close>: \<open>None\<close> when anything in the block raises,
  otherwise the \<open>device_type\<close> text of the reply and whether its \<open>confidence\<close> is at least
  0.8. \<open>owner_reply\<close> stands for the whole parser of a non-empty owner text (reply or
  regular-expression fallback); nothing below depends on what it returns. The log of
  model calls is not modelled.
\<close>

record backend =
  HAS_GEMINI :: bool
  device_reply :: "row \<Rightarrow> (string \<times> bool) option"
  owner_reply :: "string \<Rightarrow> string \<Rightarrow> string \<times> string \<times> string"

definition parse_owner_llm :: "backend \<Rightarrow> string \<Rightarrow> string \<Rightarrow> string \<times> string \<times> string" where
  "parse_owner_llm be owner row_id =
     (if owner = [] \<or> strip owner = [] then ([], [], [])
      else owner_reply be (strip owner) row_id)"

definition known_types :: "string list" where
  "known_types = [''server'', ''router'', ''switch'', ''printer'', ''iot'', ''firewall'',
                  ''access point'', ''workstation'']"

text \<open>The keyword chain that runs when no reply was obtained.\<close>

definition keyword_fallback :: "string \<Rightarrow> string \<times> string" where
  "keyword_fallback clues =
     (if list_ex (contains clues) [''srv'', ''server'', ''db'', ''host'', ''sql'', ''web'', ''app'']
        then (''server'', ''medium'')
      else if list_ex (contains clues) [''rtr'', ''router'', ''gw'', ''gateway'', ''edge'']
        then (''router'', ''medium'')
      else if list_ex (contains clues) [''sw'', ''switch'', ''core'']
        then (''switch'', ''medium'')
      else if list_ex (contains clues) [''print'', ''printer'']
        then (''printer'', ''medium'')
      else if list_ex (contains clues) [''cam'', ''camera'', ''iot'', ''sensor'']
        then (''iot'', ''medium'')
      else if list_ex (contains clues) [''ap'', ''access'', ''wireless'', ''wifi'']
        then (''access point'', ''medium'')
      else if list_ex (contains clues) [''fw'', ''firewall'']
        then (''firewall'', ''medium'')
      else if list_ex (contains clues) [''pc'', ''laptop'', ''desktop'', ''workstation'']
        then (''workstation'', ''medium'')
      else (''unknown'', ''low''))"

definition classify_device_type_llm :: "backend \<Rightarrow> row \<Rightarrow> string \<times> string" where
  "classify_device_type_llm be row_data =
     (let device_type = lower (strip (get row_data ''device_type''));
          hostname = strip (get row_data ''hostname'');
          notes = strip (get row_data ''notes'')
      in if device_type \<in> set known_types then (device_type, ''high'')
         else (case (if HAS_GEMINI be then device_reply be row_data else None) of
                 Some (classification, score_ge_08) \<Rightarrow>
                   (lower classification, if score_ge_08 then ''medium'' else ''low'')
               | None \<Rightarrow> keyword_fallback (lower (hostname @ '' '' @ notes))))"

section \<open>Anomalies and recommendations\<close>

record issue =
  issue_field :: string
  issue_type :: string
  issue_value :: "string option"

record anomaly =
  source_row_id :: "string option"
  issues :: "issue list"
  recommended_actions :: "string list"

fun recommendations_loop :: "string list \<Rightarrow> issue list \<Rightarrow> string list" where
  "recommendations_loop recommendations [] = recommendations"
| "recommendations_loop recommendations (i # rest) =
     recommendations_loop
       (if issue_field i = ''ip'' then
          (if contains (issue_type i) ''out_of_range''
             then recommendations @ [''Correct IP octets to valid range (0-255)'']
           else if contains (issue_type i) ''wrong_part_count''
             then recommendations @ [''Verify IP address has exactly 4 octets'']
           else if contains (issue_type i) ''ipv6''
             then recommendations @ [''Use IPv4 address or update schema to support IPv6'']
           else recommendations @ [''Correct or validate IP address format''])
        else if issue_field i = ''hostname''
          then recommendations @ [''Update hostname to meet RFC 1123 standards'']
        else if issue_field i = ''mac''
          then recommendations @ [''Correct MAC address to valid 12-digit hex format'']
        else if issue_field i = ''fqdn''
          then recommendations @ [''Ensure FQDN has valid domain structure'']
        else recommendations)
       rest"

definition generate_recommendations :: "issue list \<Rightarrow> string list" where
  "generate_recommendations iss =
     (let recommendations = recommendations_loop [] iss
      in if recommendations \<noteq> [] then recommendations else [''Review and correct field data''])"


section \<open>The record pipeline\<close>

text \<open>
  The emitted row. Every column is text, as it is written to the CSV file, but the row
  identifier, which is the cell as it was read.
\<close>

record output_row =
  out_ip :: string
  out_ip_valid :: string
  out_ip_version :: string
  out_subnet_cidr :: string
  out_hostname :: string
  out_hostname_valid :: string
  out_fqdn :: string
  out_fqdn_consistent :: string
  out_reverse_ptr :: string
  out_mac :: string
  out_mac_valid :: string
  out_owner :: string
  out_owner_email :: string
  out_owner_team :: string
  out_device_type :: string
  out_device_type_confidence :: string
  out_site :: string
  out_site_normalized :: string
  out_source_row_id :: "string option"
  out_normalization_steps :: string

definition true_false :: "bool \<Rightarrow> string" where
  "true_false b = (if b then ''true'' else ''false'')"

text \<open>
  What \<open>csv.DictReader\<close> yields for a line of the file: a cell is a text, or \<open>None\<close> where
  the line is shorter than the header. A column that the file does not have is no key of
  the dictionary. \<open>row.get(k, "")\<close> is \<open>cell row k\<close>. The text cells of a row form a
  dictionary with text values, \<open>texts row\<close>.
\<close>

type_synonym csv_row = "string \<rightharpoonup> string option"

definition cell :: "csv_row \<Rightarrow> string \<Rightarrow> string option" where
  "cell r k = (case r k of None \<Rightarrow> Some [] | Some v \<Rightarrow> v)"

definition texts :: "csv_row \<Rightarrow> row" where
  "texts r k = (case r k of Some (Some v) \<Rightarrow> Some v | _ \<Rightarrow> None)"

text \<open>
  The four rule-based stages of the loop body. Each takes the trace \<open>steps\<close> and the
  issue list \<open>row_anomalies\<close> built so far and returns them extended, with the values the
  stage computes. For the cell \<open>None\<close> every validator answers \<open>missing\<close> through its test
  \<open>not x\<close>; the IP stage goes on with that answer, and the other three stages then call
  \<open>strip\<close> on the cell, which raises \<open>AttributeError\<close>.
\<close>

definition ip_stage ::
  "string option \<Rightarrow> string list \<Rightarrow> issue list \<Rightarrow> py_error + (string list \<times> issue list \<times> string \<times> string)" where
  "ip_stage raw_ip steps row_anomalies =
     (case raw_ip of
        None \<Rightarrow>
          Inr ((steps @ [''ip_trim'']) @ [''ip_invalid_'' @ ''missing''],
               row_anomalies @ [\<lparr>issue_field = ''ip'', issue_type = ''missing'', issue_value = None\<rparr>],
               [], [])
      | Some ip_str \<Rightarrow>
     (case ipv4_validate_and_normalize ip_str of (ip_valid, ip_normalized, ip_version, ip_reason) \<Rightarrow>
        let steps = steps @ [''ip_trim''] in
        if ip_valid then
          (case default_subnet ip_normalized of
             Inl e \<Rightarrow> Inl e
           | Inr subnet_cidr \<Rightarrow>
               Inr (steps @ [''ip_parse''] @ [''ip_normalize''], row_anomalies, subnet_cidr,
                    generate_reverse_ptr ip_normalized True))
        else
          Inr (steps @ [''ip_invalid_'' @ ip_reason],
               row_anomalies @ [\<lparr>issue_field = ''ip'', issue_type = ip_reason,
                                  issue_value = Some ip_str\<rparr>],
               [], [])))"

definition hostname_stage ::
  "string option \<Rightarrow> string list \<Rightarrow> issue list \<Rightarrow> py_error + (string list \<times> issue list \<times> string)" where
  "hostname_stage raw_hostname steps row_anomalies =
     (case raw_hostname of
        None \<Rightarrow> Inl AttributeError
      | Some hostname \<Rightarrow>
     (case validate_hostname hostname of (hostname_valid, hostname_reason) \<Rightarrow>
        let steps = steps @ [''hostname_trim''] in
        if hostname_valid then Inr (steps @ [''hostname_validate''], row_anomalies, strip hostname)
        else
          Inr (steps @ [''hostname_invalid_'' @ hostname_reason],
               (if strip hostname \<noteq> []
                then row_anomalies @ [\<lparr>issue_field = ''hostname'', issue_type = hostname_reason,
                                        issue_value = Some hostname\<rparr>]
                else row_anomalies),
               strip hostname)))"

definition fqdn_stage ::
  "string option \<Rightarrow> string \<Rightarrow> string list \<Rightarrow> issue list
     \<Rightarrow> py_error + (string list \<times> issue list \<times> string \<times> bool)" where
  "fqdn_stage raw_fqdn hostname_out steps row_anomalies =
     (case raw_fqdn of
        None \<Rightarrow> Inl AttributeError
      | Some fqdn \<Rightarrow>
     (case validate_fqdn fqdn of (fqdn_valid, fqdn_reason) \<Rightarrow>
        let steps = steps @ [''fqdn_trim''] in
        if fqdn_valid then
          Inr (steps @ [''fqdn_validate''], row_anomalies, strip fqdn,
               check_fqdn_consistency hostname_out (strip fqdn))
        else
          Inr (steps,
               (if strip fqdn \<noteq> []
                then row_anomalies @ [\<lparr>issue_field = ''fqdn'', issue_type = fqdn_reason,
                                        issue_value = Some fqdn\<rparr>]
                else row_anomalies),
               strip fqdn, False)))"

definition mac_stage ::
  "string option \<Rightarrow> string list \<Rightarrow> issue list \<Rightarrow> py_error + (string list \<times> issue list \<times> string)" where
  "mac_stage raw_mac steps row_anomalies =
     (case raw_mac of
        None \<Rightarrow> Inl AttributeError
      | Some mac \<Rightarrow>
     (case normalize_mac mac of (mac_valid, mac_normalized, mac_reason) \<Rightarrow>
        let steps = steps @ [''mac_trim''] in
        if mac_valid then Inr (steps @ [''mac_normalize''], row_anomalies, mac_normalized)
        else if strip mac \<noteq> [] then
          Inr (steps @ [''mac_invalid_'' @ mac_reason],
               row_anomalies @ [\<lparr>issue_field = ''mac'', issue_type = mac_reason,
                                  issue_value = Some mac\<rparr>],
               strip mac)
        else Inr (steps, row_anomalies, strip mac)))"

text \<open>
  The two model-backed stages on the cells of a row. The owner parser returns three empty
  texts for \<open>None\<close>; the row identifier only enters its messages. The device classifier
  calls \<open>strip\<close> on the cells \<open>device_type\<close>, \<open>hostname\<close>, \<open>notes\<close> and \<open>ip\<close> before anything
  else, which raises \<open>AttributeError\<close> when one of them is \<open>None\<close>.
\<close>

definition parse_owner_cell ::
  "backend \<Rightarrow> string option \<Rightarrow> string option \<Rightarrow> string \<times> string \<times> string" where
  "parse_owner_cell be raw_owner row_id =
     (case raw_owner of
        None \<Rightarrow> ([], [], [])
      | Some owner \<Rightarrow>
          parse_owner_llm be owner (case row_id of None \<Rightarrow> ''None'' | Some i \<Rightarrow> i))"

definition classify_device_type_cells :: "backend \<Rightarrow> csv_row \<Rightarrow> py_error + (string \<times> string)" where
  "classify_device_type_cells be row =
     (if list_ex (\<lambda>k. cell row k = None) [''device_type'', ''hostname'', ''notes'', ''ip'']
      then Inl AttributeError
      else Inr (classify_device_type_llm be (texts row)))"

text \<open>
  One pass of the loop body: the output row and the issues collected for the row, or the
  exception that leaves the loop. Building the output row calls \<open>strip\<close> on the site cell,
  and on the IP cell when the IP is not valid.
\<close>

definition process_row :: "backend \<Rightarrow> csv_row \<Rightarrow> py_error + (output_row \<times> issue list)" where
  "process_row be row =
     (let row_id = cell row ''source_row_id'';
          raw_ip = cell row ''ip'';
          raw_hostname = cell row ''hostname'';
          raw_fqdn = cell row ''fqdn'';
          raw_mac = cell row ''mac'';
          raw_owner = cell row ''owner'';
          raw_site = cell row ''site''
      in
      case ip_stage raw_ip [] [] of
        Inl e \<Rightarrow> Inl e
      | Inr (steps, row_anomalies, subnet_cidr, reverse_ptr) \<Rightarrow>
      (case hostname_stage raw_hostname steps row_anomalies of
        Inl e \<Rightarrow> Inl e
      | Inr (steps, row_anomalies, hostname_out) \<Rightarrow>
      (case fqdn_stage raw_fqdn hostname_out steps row_anomalies of
        Inl e \<Rightarrow> Inl e
      | Inr (steps, row_anomalies, fqdn_out, fqdn_consistent) \<Rightarrow>
      (case mac_stage raw_mac steps row_anomalies of
        Inl e \<Rightarrow> Inl e
      | Inr (steps, row_anomalies, mac_out) \<Rightarrow>
      (case parse_owner_cell be raw_owner row_id of (owner_name, owner_email, owner_team) \<Rightarrow>
      (case classify_device_type_cells be row of
        Inl e \<Rightarrow> Inl e
      | Inr (device_type, device_confidence) \<Rightarrow>
        let steps = steps @ [''owner_parse_llm''];
            steps = steps @ [''device_classify_llm_'' @ device_confidence];
            site_normalized = (case raw_site of None \<Rightarrow> [] | Some site \<Rightarrow> normalize_site site);
            steps = steps @ [''site_normalize'']
        in
        (case (raw_ip, raw_hostname, raw_mac, raw_site) of
           (Some ip_str, Some hostname, Some mac, Some site) \<Rightarrow>
             let ip_valid = fst (ipv4_validate_and_normalize ip_str) in
             Inr
               (\<lparr>out_ip = (if ip_valid then fst (snd (ipv4_validate_and_normalize ip_str))
                            else strip ip_str),
                 out_ip_valid = true_false ip_valid,
                 out_ip_version = fst (snd (snd (ipv4_validate_and_normalize ip_str))),
                 out_subnet_cidr = subnet_cidr,
                 out_hostname = hostname_out,
                 out_hostname_valid = true_false (fst (validate_hostname hostname)),
                 out_fqdn = fqdn_out,
                 out_fqdn_consistent = true_false fqdn_consistent,
                 out_reverse_ptr = reverse_ptr,
                 out_mac = mac_out,
                 out_mac_valid = true_false (fst (normalize_mac mac)),
                 out_owner = owner_name,
                 out_owner_email = owner_email,
                 out_owner_team = owner_team,
                 out_device_type = device_type,
                 out_device_type_confidence = device_confidence,
                 out_site = strip site,
                 out_site_normalized = site_normalized,
                 out_source_row_id = row_id,
                 out_normalization_steps = join ''|'' steps\<rparr>,
                row_anomalies)
         | _ \<Rightarrow> Inl AttributeError)))))))"

text \<open>
  The loop over the rows. \<open>output_rows\<close> is the local list, \<open>anomalies\<close> the attribute of
  the normalizer; an anomaly is appended under the test \<open>if row_anomalies\<close>. An exception
  in a row ends the loop: nothing is returned.
\<close>

fun process_loop ::
  "backend \<Rightarrow> csv_row list \<Rightarrow> output_row list \<Rightarrow> anomaly list \<Rightarrow> py_error + (output_row list \<times> anomaly list)" where
  "process_loop be [] output_rows anomalies = Inr (output_rows, anomalies)"
| "process_loop be (row # rows) output_rows anomalies =
     (case process_row be row of
        Inl e \<Rightarrow> Inl e
      | Inr (output_row, row_anomalies) \<Rightarrow>
          process_loop be rows (output_rows @ [output_row])
            (if row_anomalies \<noteq> []
             then anomalies @ [\<lparr>source_row_id = cell row ''source_row_id'',
                                 issues = row_anomalies,
                                 recommended_actions = generate_recommendations row_anomalies\<rparr>]
             else anomalies))"

definition process :: "backend \<Rightarrow> csv_row list \<Rightarrow> anomaly list \<Rightarrow> py_error + (output_row list \<times> anomaly list)" where
  "process be rows anomalies = process_loop be rows [] anomalies"

text \<open>A backend for the case that the model package is not installed.\<close>

definition offline :: backend where
  "offline = \<lparr>HAS_GEMINI = False, device_reply = (\<lambda>r. None),
              owner_reply = (\<lambda>t i. (t, [], []))\<rparr>"


section \<open>Auxiliary notions for the statements\<close>

text \<open>
  A part as the validator accepts it: decimal digits, no more of them than \<open>int\<close> converts,
  whose value is at most 255.
\<close>

definition octet_text :: "string \<Rightarrow> bool" where
  "octet_text p =
     (p \<noteq> [] \<and> list_all is_decimal p \<and> length p \<le> max_str_digits \<and> digits_val p \<le> 255)"



text \<open>
  The recommendation of one issue as the specification words it, by field and reason;
  \<open>None\<close> when no rule names the field.
\<close>

definition recommendation_for :: "issue \<Rightarrow> string option" where
  "recommendation_for i =
     (if issue_field i = ''ip'' then
        Some (if contains (issue_type i) ''out_of_range'' then ''Correct IP octets to valid range (0-255)''
              else if contains (issue_type i) ''wrong_part_count'' then ''Verify IP address has exactly 4 octets''
              else if contains (issue_type i) ''ipv6'' then ''Use IPv4 address or update schema to support IPv6''
              else ''Correct or validate IP address format'')
      else if issue_field i = ''hostname'' then Some ''Update hostname to meet RFC 1123 standards''
      else if issue_field i = ''mac'' then Some ''Correct MAC address to valid 12-digit hex format''
      else if issue_field i = ''fqdn'' then Some ''Ensure FQDN has valid domain structure''
      else None)"

section \<open>Properties of the string functions\<close>

lemma split_nonempty: "split sep s \<noteq> []"
  by (induction s) (auto split: list.splits)

lemma length_split: "length (split sep s) = Suc (length (filter (\<lambda>c. c = sep) s))"
  by (induction s) (auto split: list.splits simp: split_nonempty)

lemma filter_dropWhile_other:
  "(\<And>x. P x \<Longrightarrow> \<not> Q x) \<Longrightarrow> filter P (dropWhile Q xs) = filter P xs"
  by (induction xs) auto

lemma filter_strip_other:
  assumes "\<And>x. P x \<Longrightarrow> \<not> isspace x"
  shows "filter P (strip s) = filter P s"
proof -
  have "filter P (strip s) = rev (filter P (dropWhile isspace (rev (dropWhile isspace s))))"
    by (simp add: strip_def rev_filter)
  also have "\<dots> = rev (filter P (rev (dropWhile isspace s)))"
    using assms by (simp add: filter_dropWhile_other)
  also have "\<dots> = filter P (dropWhile isspace s)"
    by (simp add: rev_filter)
  also have "\<dots> = filter P s"
    using assms by (simp add: filter_dropWhile_other)
  finally show ?thesis .
qed

lemma set_strip: "set (strip s) \<subseteq> set s"
  by (auto simp: strip_def dest!: set_dropWhileD)

lemma dot_not_space: "\<not> isspace (CHR ''.'')"
  by (simp add: isspace_def code_def)

lemma length_split_strip: "length (split (CHR ''.'') (strip s)) = length (split (CHR ''.'') s)"
  by (simp add: length_split filter_strip_other [where P = "\<lambda>c. c = CHR ''.''"] dot_not_space)

section \<open>The validators\<close>

lemma octets_loop_reason:
  "octets_loop acc ps = Inl r \<Longrightarrow>
     r \<in> {''empty_octet'', ''negative_octet'', ''non_numeric_octet'', ''parse_error'',
          ''octet_out_of_range''}"
  by (induction ps arbitrary: acc) (auto split: if_splits option.splits)

lemma labels_loop_ok: "fst (labels_loop ls) = (snd (labels_loop ls) = ''ok'')"
  by (induction ls) auto

lemma ipv4_valid_iff_ok:
  "fst (ipv4_validate_and_normalize s) = (snd (snd (snd (ipv4_validate_and_normalize s))) = ''ok'')"
  by (auto simp: ipv4_validate_and_normalize_def Let_def split: sum.splits
           dest!: octets_loop_reason)

text \<open>
  Claim C6. Every field validator (\<open>ipv4_validate_and_normalize\<close>, \<open>validate_hostname\<close>,
  \<open>validate_fqdn\<close>, \<open>normalize_mac\<close>) returns, for every input text, an outcome whose valid
  flag is true exactly when its reason code is \<open>ok\<close>.
\<close>

theorem validators_valid_iff_ok:
  "(fst (ipv4_validate_and_normalize s) \<longleftrightarrow> snd (snd (snd (ipv4_validate_and_normalize s))) = ''ok'')
   \<and> (fst (validate_hostname s) \<longleftrightarrow> snd (validate_hostname s) = ''ok'')
   \<and> (fst (validate_fqdn s) \<longleftrightarrow> snd (validate_fqdn s) = ''ok'')
   \<and> (fst (normalize_mac s) \<longleftrightarrow> snd (snd (normalize_mac s)) = ''ok'')"
proof (intro conjI)
  show "fst (ipv4_validate_and_normalize s) \<longleftrightarrow> snd (snd (snd (ipv4_validate_and_normalize s))) = ''ok''"
    by (rule ipv4_valid_iff_ok)
  show "fst (validate_hostname s) \<longleftrightarrow> snd (validate_hostname s) = ''ok''"
    by (simp add: validate_hostname_def Let_def)
  show "fst (validate_fqdn s) \<longleftrightarrow> snd (validate_fqdn s) = ''ok''"
    using labels_loop_ok by (simp add: validate_fqdn_def Let_def)
  show "fst (normalize_mac s) \<longleftrightarrow> snd (snd (normalize_mac s)) = ''ok''"
    by (simp add: normalize_mac_def Let_def)
qed

theorem validators_valid_iff_ok_witness:
  "ipv4_validate_and_normalize ''300.1.1.1'' = (False, ''300.1.1.1'', [], ''octet_out_of_range'')
   \<and> (fst (ipv4_validate_and_normalize ''300.1.1.1'')
        \<longleftrightarrow> snd (snd (snd (ipv4_validate_and_normalize ''300.1.1.1''))) = ''ok'')
   \<and> (fst (validate_hostname ''300.1.1.1'') \<longleftrightarrow> snd (validate_hostname ''300.1.1.1'') = ''ok'')
   \<and> (fst (validate_fqdn ''300.1.1.1'') \<longleftrightarrow> snd (validate_fqdn ''300.1.1.1'') = ''ok'')
   \<and> (fst (normalize_mac ''300.1.1.1'') \<longleftrightarrow> snd (snd (normalize_mac ''300.1.1.1'')) = ''ok'')"
proof -
  have "ipv4_validate_and_normalize ''300.1.1.1'' = (False, ''300.1.1.1'', [], ''octet_out_of_range'')"
    by code_simp
  then show ?thesis
    using validators_valid_iff_ok [of "''300.1.1.1''"] by simp
qed

text \<open>
  Claim C4, as stated: every text whose number of dot-separated parts is not 4 is rejected
  with reason \<open>wrong_part_count\<close>. The text \<open>::1\<close> has one part and is rejected as
  \<open>ipv6_detected\<close>: the tests for a missing value and for an IPv6 address come first.
\<close>

theorem wrong_part_count_counterexample:
  "length (split (CHR ''.'') ''::1'') \<noteq> 4
   \<and> ipv4_validate_and_normalize ''::1'' = (False, ''::1'', ''6'', ''ipv6_detected'')"
  by code_simp

text \<open>
  Claim C4, amended: a text that is not missing (its trimmed upper-case form is neither
  empty nor \<open>N/A\<close>), that contains neither \<open>:\<close> nor \<open>%\<close>, and whose number of
  dot-separated parts is not 4, is rejected with reason \<open>wrong_part_count\<close>; the value
  kept is the trimmed text and the version is empty.
\<close>

theorem wrong_part_count:
  assumes "upper (strip ip_str) \<notin> {''N/A'', []}"
    and "CHR '':'' \<notin> set ip_str" and "CHR ''%'' \<notin> set ip_str"
    and "length (split (CHR ''.'') ip_str) \<noteq> 4"
  shows "ipv4_validate_and_normalize ip_str = (False, strip ip_str, [], ''wrong_part_count'')"
proof -
  have ne: "ip_str \<noteq> []"
    using assms(1) by (auto simp: strip_def upper_def)
  show ?thesis
    using assms ne set_strip [of ip_str]
    by (auto simp: ipv4_validate_and_normalize_def Let_def length_split_strip)
qed

theorem wrong_part_count_witness:
  "ipv4_validate_and_normalize '' 1.2.3 '' = (False, ''1.2.3'', [], ''wrong_part_count'')"
  using wrong_part_count [of "'' 1.2.3 ''"] by code_simp


section \<open>Decimal text and the IPv4 validator\<close>

lemma code_digit [simp]: "(d::nat) < 10 \<Longrightarrow> code (char_of (48 + d)) = 48 + d"
  by (simp add: code_def)

lemma is_decimal_digit: "(d::nat) < 10 \<Longrightarrow> is_decimal (char_of (48 + d))"
  by (simp add: is_decimal_def)

lemma decimal_facts:
  assumes "is_decimal c"
  shows "\<not> isspace c" "\<not> is_int_space c" "isdigit_char c" "upper_char c = [c]"
    "c \<noteq> CHR ''.''" "c \<noteq> CHR ''_''" "c \<noteq> CHR ''-''" "c \<noteq> CHR ''+''"
    "c \<noteq> CHR '':''" "c \<noteq> CHR ''%''" "c \<noteq> CHR ''N''"
  using assms
  by (auto simp: is_decimal_def isspace_def is_int_space_def isdigit_char_def upper_char_def
                 code_def Let_def)

lemma str_nat_nonempty: "str_nat n \<noteq> []"
  by (subst str_nat.simps) simp

lemma str_nat_decimal: "list_all is_decimal (str_nat n)"
proof (induction n rule: str_nat.induct)
  case (1 n)
  show ?case
  proof (cases "n < 10")
    case True
    then show ?thesis by (subst str_nat.simps) (simp add: is_decimal_digit)
  next
    case False
    then show ?thesis using 1 by (subst str_nat.simps) (simp add: is_decimal_digit)
  qed
qed

lemma digits_val_snoc: "digits_val (p @ [c]) = 10 * digits_val p + digit_val c"
  by (simp add: digits_val_def)

lemma digits_val_str_nat: "digits_val (str_nat n) = n"
proof (induction n rule: str_nat.induct)
  case (1 n)
  show ?case
  proof (cases "n < 10")
    case True
    then show ?thesis by (subst str_nat.simps) (simp add: digits_val_def digit_val_def)
  next
    case False
    then show ?thesis using 1
      by (subst str_nat.simps) (simp add: digits_val_snoc digit_val_def)
  qed
qed

lemma digits_val_zeros: "digits_val (replicate k (CHR ''0'') @ p) = digits_val p"
  by (induction k) (simp_all add: digits_val_def digit_val_def code_def)

lemma str_nat_no_leading_zero: "str_nat n = ''0'' \<or> hd (str_nat n) \<noteq> CHR ''0''"
proof (induction n rule: str_nat.induct)
  case (1 n)
  show ?case
  proof (cases "n < 10")
    case True
    then have "n \<in> {0, 1, 2, 3, 4, 5, 6, 7, 8, 9}" by auto
    then show ?thesis by (subst (1 2) str_nat.simps) (elim insertE; simp)
  next
    case False
    then have "str_nat (n div 10) \<noteq> ''0''"
      using digits_val_str_nat [of "n div 10"] by (auto simp: digits_val_def digit_val_def code_def)
    then show ?thesis using 1 False str_nat_nonempty [of "n div 10"]
      by (subst (1 2) str_nat.simps) (auto)
  qed
qed

lemma split_no_sep: "sep \<notin> set p \<Longrightarrow> split sep p = [p]"
  by (induction p) (auto split: list.splits)

lemma split_append_sep: "sep \<notin> set p \<Longrightarrow> split sep (p @ sep # rest) = p # split sep rest"
  by (induction p) (auto split: list.splits)

lemma dropWhile_hd: "s \<noteq> [] \<Longrightarrow> \<not> P (hd s) \<Longrightarrow> dropWhile P s = s"
  by (cases s) auto

lemma strip_core:
  assumes "list_all isspace w1" "list_all isspace w2" "s \<noteq> []" "\<not> isspace (hd s)" "\<not> isspace (last s)"
  shows "strip (w1 @ s @ w2) = s"
proof -
  have a: "dropWhile isspace (w1 @ s @ w2) = s @ w2"
    using assms by (simp add: dropWhile_append3 list_all_iff dropWhile_hd dropWhile_append1)
  have "dropWhile isspace (rev w2 @ rev s) = dropWhile isspace (rev s)"
    using assms(2) by (intro dropWhile_append2) (simp add: list_all_iff)
  also have "\<dots> = rev s"
    using assms by (intro dropWhile_hd) (simp_all add: hd_rev)
  finally have b: "dropWhile isspace (rev w2 @ rev s) = rev s" .
  show ?thesis by (simp add: strip_def a b)
qed

lemma all_decimal_nonempty_facts:
  assumes "p \<noteq> []" "list_all is_decimal p"
  shows "is_decimal (hd p)" "is_decimal (last p)"
  using assms by (auto simp: list_all_iff)

lemma int_digits_decimal:
  assumes "p \<noteq> []" "list_all is_decimal p" "length p \<le> max_str_digits"
  shows "int_digits p = Some (digits_val p)"
proof -
  have "CHR ''_'' \<notin> set p"
    using assms(2) decimal_facts(6) by (auto simp: list_all_iff)
  then have "split (CHR ''_'') p = [p]" by (rule split_no_sep)
  then show ?thesis using assms by (simp add: int_digits_def)
qed

lemma int_digits_too_long:
  assumes "list_all is_decimal p" "length p > max_str_digits"
  shows "int_digits p = None"
proof -
  have "CHR ''_'' \<notin> set p"
    using assms(1) decimal_facts(6) by (auto simp: list_all_iff)
  then have "split (CHR ''_'') p = [p]" by (rule split_no_sep)
  then show ?thesis using assms by (simp add: int_digits_def Let_def)
qed

lemma py_int_affix:
  assumes "p \<noteq> []" "list_all is_decimal p"
  shows "py_int p = map_option int (int_digits p)"
proof -
  from assms obtain c cs where p: "p = c # cs" by (cases p) auto
  have hd: "is_decimal (hd p)" and lst: "is_decimal (last p)"
    using assms by (rule all_decimal_nonempty_facts)+
  have a: "dropWhile is_int_space p = p"
    using assms(1) hd by (intro dropWhile_hd) (simp_all add: decimal_facts)
  have b: "dropWhile is_int_space (rev p) = rev p"
    using assms(1) lst by (intro dropWhile_hd) (simp_all add: decimal_facts hd_rev)
  have c: "c \<noteq> CHR ''-''" "c \<noteq> CHR ''+''"
    using hd p by (simp_all add: decimal_facts)
  show ?thesis
    unfolding py_int_def a b using c p by simp
qed

lemma py_int_too_long:
  assumes "list_all is_decimal p" "length p > max_str_digits"
  shows "py_int p = None"
proof -
  have "p \<noteq> []" using assms(2) by auto
  then show ?thesis using py_int_affix assms int_digits_too_long by simp
qed

lemma py_int_decimal:
  assumes "p \<noteq> []" "list_all is_decimal p" "length p \<le> max_str_digits"
  shows "py_int p = Some (int (digits_val p))"
  using py_int_affix [OF assms(1,2)] int_digits_decimal [OF assms] by simp

lemma isdigit_decimal: "p \<noteq> [] \<Longrightarrow> list_all is_decimal p \<Longrightarrow> isdigit p"
  by (auto simp: isdigit_def list_all_iff decimal_facts)

lemma str_int_nat: "str_int (int n) = str_nat n"
  by (simp add: str_int_def)


lemma octets_loop_accepts:
  "list_all octet_text ps \<Longrightarrow>
     octets_loop acc ps = Inr (acc @ map (\<lambda>p. str_nat (digits_val p)) ps)"
proof (induction ps arbitrary: acc)
  case Nil
  then show ?case by simp
next
  case (Cons p ps)
  then have p: "p \<noteq> []" "list_all is_decimal p" "digits_val p \<le> 255"
    "length p \<le> max_str_digits"
    by (simp_all add: octet_text_def)
  have neg: "\<not> startswith p ''-''"
    using all_decimal_nonempty_facts(1) [OF p(1,2)] p(1)
    by (cases p) (auto simp: startswith_def decimal_facts)
  show ?case
    using Cons p neg by (simp add: isdigit_decimal py_int_decimal str_int_nat)
qed

lemma length_str_nat: "length (str_nat n) \<le> Suc n"
proof (induction n rule: str_nat.induct)
  case (1 n)
  show ?case
  proof (cases "n < 10")
    case True
    then show ?thesis by (subst str_nat.simps) simp
  next
    case False
    then have "length (str_nat (n div 10)) \<le> Suc (n div 10)" using 1 by simp
    then show ?thesis using False by (subst str_nat.simps) simp
  qed
qed

lemma length_octet: "n \<le> 255 \<Longrightarrow> length (str_nat n) \<le> max_str_digits"
  using length_str_nat [of n] by (simp add: max_str_digits_def)

lemma octet_text_str_nat: "n \<le> 255 \<Longrightarrow> octet_text (str_nat n)"
  by (simp add: octet_text_def str_nat_nonempty str_nat_decimal digits_val_str_nat length_octet)

lemma octet_text_zeros:
  assumes "n \<le> 255" "length (replicate k (CHR ''0'') @ str_nat n) \<le> max_str_digits"
  shows "octet_text (replicate k (CHR ''0'') @ str_nat n)"
proof -
  have "list_all is_decimal (replicate k (CHR ''0''))"
    by (simp add: list_all_iff is_decimal_def code_def)
  then show ?thesis
    using assms
    by (simp add: octet_text_def str_nat_nonempty str_nat_decimal digits_val_zeros
                  digits_val_str_nat)
qed

lemma octet_text_set: "octet_text p \<Longrightarrow> c \<in> set p \<Longrightarrow> is_decimal c"
  by (simp add: octet_text_def list_all_iff)

lemma upper_decimal_first:
  assumes "s \<noteq> []" "is_decimal (hd s)"
  shows "upper s \<notin> {''N/A'', []}"
proof -
  from assms obtain c cs where s: "s = c # cs" and c: "is_decimal c" by (cases s) auto
  have "upper s = c # upper cs" using s c by (simp add: upper_def decimal_facts)
  then show ?thesis using c by (auto simp: decimal_facts)
qed

lemma ipv4_accepts:
  assumes ws: "list_all isspace w1" "list_all isspace w2"
    and ps: "octet_text p1" "octet_text p2" "octet_text p3" "octet_text p4"
  shows "ipv4_validate_and_normalize (w1 @ p1 @ ''.'' @ p2 @ ''.'' @ p3 @ ''.'' @ p4 @ w2)
         = (True,
            str_nat (digits_val p1) @ ''.'' @ str_nat (digits_val p2) @ ''.''
              @ str_nat (digits_val p3) @ ''.'' @ str_nat (digits_val p4),
            ''4'', ''ok'')"
proof -
  define body where "body = p1 @ ''.'' @ p2 @ ''.'' @ p3 @ ''.'' @ p4"
  have ne: "p1 \<noteq> []" "p4 \<noteq> []" using ps by (simp_all add: octet_text_def)
  have hd: "is_decimal (hd body)"
    using ps(1) ne by (simp add: body_def octet_text_def all_decimal_nonempty_facts)
  have lst: "is_decimal (last body)"
    using ps(4) ne by (simp add: body_def octet_text_def all_decimal_nonempty_facts)
  have bne: "body \<noteq> []" using ne by (simp add: body_def)
  have strip: "strip (w1 @ body @ w2) = body"
    using ws bne hd lst by (intro strip_core) (simp_all add: decimal_facts)
  have nodot: "CHR ''.'' \<notin> set p1" "CHR ''.'' \<notin> set p2" "CHR ''.'' \<notin> set p3" "CHR ''.'' \<notin> set p4"
    using ps octet_text_set decimal_facts(5) by blast+
  have parts: "split (CHR ''.'') body = [p1, p2, p3, p4]"
    using nodot by (simp add: body_def split_append_sep split_no_sep)
  have nocolon: "CHR '':'' \<notin> set body" "CHR ''%'' \<notin> set body"
    using ps octet_text_set decimal_facts(9,10) by (auto simp: body_def)
  have loop: "octets_loop [] [p1, p2, p3, p4]
              = Inr (map (\<lambda>p. str_nat (digits_val p)) [p1, p2, p3, p4])"
    using octets_loop_accepts [of "[p1, p2, p3, p4]" "[]"] ps by simp
  have "ipv4_validate_and_normalize (w1 @ body @ w2)
        = (True, join ''.'' (map (\<lambda>p. str_nat (digits_val p)) [p1, p2, p3, p4]), ''4'', ''ok'')"
    unfolding ipv4_validate_and_normalize_def strip Let_def parts loop
    using bne nocolon upper_decimal_first [OF bne hd] by simp
  then show ?thesis by (simp add: body_def)
qed

lemma octets_loop_result:
  "octets_loop acc ps = Inr cs \<Longrightarrow>
     \<exists>vs. length vs = length ps \<and> (\<forall>v \<in> set vs. v \<le> 255) \<and> cs = acc @ map str_nat vs"
proof (induction ps arbitrary: acc)
  case Nil
  then show ?case by simp
next
  case (Cons p ps)
  from Cons.prems obtain v where v: "py_int p = Some v" "0 \<le> v" "v \<le> 255"
    and rest: "octets_loop (acc @ [str_int v]) ps = Inr cs"
    by (auto split: if_splits option.splits)
  from Cons.IH [OF rest] obtain vs where vs: "length vs = length ps" "\<forall>v \<in> set vs. v \<le> 255"
    "cs = (acc @ [str_int v]) @ map str_nat vs" by blast
  have "str_int v = str_nat (nat v)" using v by (simp add: str_int_def)
  then have "length (nat v # vs) = length (p # ps) \<and> (\<forall>x \<in> set (nat v # vs). x \<le> 255)
             \<and> cs = acc @ map str_nat (nat v # vs)"
    using vs v by simp
  then show ?case by blast
qed

lemma ipv4_valid_canonical:
  assumes "ipv4_validate_and_normalize s = (True, c, ver, r)"
  shows "\<exists>a b d e. a \<le> 255 \<and> b \<le> 255 \<and> d \<le> 255 \<and> e \<le> 255
           \<and> c = str_nat a @ ''.'' @ str_nat b @ ''.'' @ str_nat d @ ''.'' @ str_nat e
           \<and> ver = ''4'' \<and> r = ''ok''"
proof -
  from assms obtain cs where len: "length (split (CHR ''.'') (strip s)) = 4"
    and loop: "octets_loop [] (split (CHR ''.'') (strip s)) = Inr cs"
    and c: "c = join ''.'' cs" and v: "ver = ''4''" "r = ''ok''"
    by (auto simp: ipv4_validate_and_normalize_def Let_def split: if_splits sum.splits)
  from octets_loop_result [OF loop] len obtain vs where vs: "length vs = 4"
    "\<forall>v \<in> set vs. v \<le> 255" "cs = map str_nat vs" by auto
  from vs(1) obtain a b d e where "vs = [a, b, d, e]"
    by (auto simp: length_Suc_conv numeral_eq_Suc)
  then show ?thesis using vs c v by auto
qed

lemma ipv4_canonical_fixed:
  assumes "a \<le> 255" "b \<le> 255" "d \<le> 255" "e \<le> 255"
  shows "ipv4_validate_and_normalize (str_nat a @ ''.'' @ str_nat b @ ''.'' @ str_nat d @ ''.'' @ str_nat e)
         = (True, str_nat a @ ''.'' @ str_nat b @ ''.'' @ str_nat d @ ''.'' @ str_nat e, ''4'', ''ok'')"
  using ipv4_accepts [of "[]" "[]" "str_nat a" "str_nat b" "str_nat d" "str_nat e"] assms
  by (simp add: octet_text_str_nat digits_val_str_nat)


lemma ipv4_rejects_long:
  assumes "list_all is_decimal p" "length p > max_str_digits"
  shows "ipv4_validate_and_normalize (p @ ''.1.1.1'') = (False, p @ ''.1.1.1'', [], ''parse_error'')"
proof -
  define body where "body = p @ ''.1.1.1''"
  have pne: "p \<noteq> []" using assms(2) by auto
  have one: "is_decimal (CHR ''1'')" by (simp add: is_decimal_def code_def)
  have hd: "is_decimal (hd body)"
    using assms(1) pne by (simp add: body_def all_decimal_nonempty_facts)
  have lst: "is_decimal (last body)" using one by (simp add: body_def)
  have bne: "body \<noteq> []" by (simp add: body_def)
  have strip: "strip body = body"
    using strip_core [of "[]" "[]" body] bne hd lst by (simp add: decimal_facts)
  have nodot: "CHR ''.'' \<notin> set p"
    using assms(1) decimal_facts(5) by (auto simp: list_all_iff)
  have parts: "split (CHR ''.'') body = [p, ''1'', ''1'', ''1'']"
    using nodot split_append_sep [of "CHR ''.''" p "''1.1.1''"] by (simp add: body_def)
  have nocolon: "CHR '':'' \<notin> set body" "CHR ''%'' \<notin> set body"
    using assms(1) decimal_facts(9,10) by (auto simp: body_def list_all_iff)
  have neg: "\<not> startswith p ''-''"
    using all_decimal_nonempty_facts(1) [OF pne assms(1)] pne
    by (cases p) (auto simp: startswith_def decimal_facts)
  have loop: "octets_loop [] [p, ''1'', ''1'', ''1''] = Inl ''parse_error''"
    using pne neg assms(1) by (simp add: isdigit_decimal py_int_too_long [OF assms])
  have "ipv4_validate_and_normalize body = (False, body, [], ''parse_error'')"
    unfolding ipv4_validate_and_normalize_def strip Let_def parts loop
    using bne nocolon upper_decimal_first [OF bne hd] by simp
  then show ?thesis by (simp add: body_def)
qed

text \<open>
  Claim C1, as stated, covers every number of leading zeros. \<open>int\<close> refuses a text of more
  than 4300 digits, and the validator turns that into \<open>parse_error\<close>: the rendering of
  the address 1.1.1.1 whose first octet has 4300 leading zeros is rejected.
\<close>

theorem ipv4_accepts_octets_counterexample:
  "str_nat 1 = ''1''
   \<and> ipv4_validate_and_normalize (replicate 4300 (CHR ''0'') @ ''1.1.1.1'')
       = (False, replicate 4300 (CHR ''0'') @ ''1.1.1.1'', [], ''parse_error'')"
proof -
  have a: "str_nat 1 = ''1''" by code_simp
  have d: "list_all is_decimal (replicate 4300 (CHR ''0'') @ ''1'')"
    by (simp add: list_all_iff is_decimal_def code_def)
  have l: "length (replicate 4300 (CHR ''0'') @ ''1'') > max_str_digits"
    by (simp add: max_str_digits_def)
  show ?thesis using a ipv4_rejects_long [OF d l] by simp
qed

text \<open>
  Claim C1, amended. For integers \<open>a\<close>, \<open>b\<close>, \<open>c\<close>, \<open>d\<close> in \<open>[0,255]\<close>, every dotted text whose
  four parts are decimal renderings of them with leading zeros, each part of at most 4300
  digits, and any white space around the whole, is accepted: the result is valid, the
  reason is \<open>ok\<close>, the version is \<open>4\<close> and the canonical text is \<open>a.b.c.d\<close>, where no octet
  has a leading zero.
\<close>

theorem ipv4_accepts_octets:
  assumes "a \<le> 255" "b \<le> 255" "c \<le> 255" "d \<le> 255"
    and "list_all isspace w1" "list_all isspace w2"
    and "length (replicate k1 (CHR ''0'') @ str_nat a) \<le> max_str_digits"
    and "length (replicate k2 (CHR ''0'') @ str_nat b) \<le> max_str_digits"
    and "length (replicate k3 (CHR ''0'') @ str_nat c) \<le> max_str_digits"
    and "length (replicate k4 (CHR ''0'') @ str_nat d) \<le> max_str_digits"
  shows "ipv4_validate_and_normalize
           (w1 @ replicate k1 (CHR ''0'') @ str_nat a @ ''.''
               @ replicate k2 (CHR ''0'') @ str_nat b @ ''.''
               @ replicate k3 (CHR ''0'') @ str_nat c @ ''.''
               @ replicate k4 (CHR ''0'') @ str_nat d @ w2)
         = (True, str_nat a @ ''.'' @ str_nat b @ ''.'' @ str_nat c @ ''.'' @ str_nat d, ''4'', ''ok'')
         \<and> (\<forall>n \<in> {a, b, c, d}. str_nat n = ''0'' \<or> hd (str_nat n) \<noteq> CHR ''0'')"
proof -
  have o: "octet_text (replicate k1 (CHR ''0'') @ str_nat a)"
    "octet_text (replicate k2 (CHR ''0'') @ str_nat b)"
    "octet_text (replicate k3 (CHR ''0'') @ str_nat c)"
    "octet_text (replicate k4 (CHR ''0'') @ str_nat d)"
    using assms by (simp_all add: octet_text_zeros)
  have "ipv4_validate_and_normalize
           (w1 @ (replicate k1 (CHR ''0'') @ str_nat a) @ ''.''
               @ (replicate k2 (CHR ''0'') @ str_nat b) @ ''.''
               @ (replicate k3 (CHR ''0'') @ str_nat c) @ ''.''
               @ (replicate k4 (CHR ''0'') @ str_nat d) @ w2)
         = (True, str_nat a @ ''.'' @ str_nat b @ ''.'' @ str_nat c @ ''.'' @ str_nat d, ''4'', ''ok'')"
    using ipv4_accepts [OF assms(5,6) o] by (simp add: digits_val_zeros digits_val_str_nat)
  then show ?thesis
    using str_nat_no_leading_zero by simp
qed

theorem ipv4_accepts_octets_witness:
  "ipv4_validate_and_normalize '' 010.001.2.255 '' = (True, ''10.1.2.255'', ''4'', ''ok'')"
  using ipv4_accepts_octets [of 10 1 2 255 "'' ''" "'' ''" 1 2 0 0] by code_simp

lemma str_nat_no_dot: "CHR ''.'' \<notin> set (str_nat n)"
  using str_nat_decimal [of n] decimal_facts(5) by (auto simp: list_all_iff)

lemma py_int_str_nat: "n \<le> 255 \<Longrightarrow> py_int (str_nat n) = Some (int n)"
  by (simp add: py_int_decimal str_nat_nonempty str_nat_decimal digits_val_str_nat length_octet)

lemma split_canonical:
  "split (CHR ''.'') (str_nat a @ ''.'' @ str_nat b @ ''.'' @ str_nat c @ ''.'' @ str_nat d)
   = [str_nat a, str_nat b, str_nat c, str_nat d]"
  by (simp add: split_append_sep split_no_sep str_nat_no_dot)

lemma classify_canonical:
  assumes "a \<le> 255" "b \<le> 255" "c \<le> 255" "d \<le> 255"
  shows "classify_ipv4_type (str_nat a @ ''.'' @ str_nat b @ ''.'' @ str_nat c @ ''.'' @ str_nat d)
   = (if a = 10 \<or> (a = 172 \<and> 16 \<le> b \<and> b \<le> 31) \<or> (a = 192 \<and> b = 168) then ''private_rfc1918''
      else if a = 169 \<and> b = 254 then ''link_local_apipa''
      else if a = 127 then ''loopback'' else ''public_or_other'')"
  unfolding classify_ipv4_type_def split_canonical using assms
  by (auto simp: py_int_str_nat classify_octets_def idx_def py_and_def split: bool.splits)

lemma default_subnet_canonical:
  assumes "a \<le> 255" "b \<le> 255" "c \<le> 255" "d \<le> 255"
  shows "default_subnet (str_nat a @ ''.'' @ str_nat b @ ''.'' @ str_nat c @ ''.'' @ str_nat d)
   = Inr (if a = 10 \<or> (a = 172 \<and> 16 \<le> b \<and> b \<le> 31) \<or> (a = 192 \<and> b = 168)
          then str_nat a @ ''.'' @ str_nat b @ ''.'' @ str_nat c @ ''.0/24'' else [])"
  unfolding default_subnet_def classify_canonical [OF assms] split_canonical using assms
  by (simp add: py_int_str_nat idx_def str_int_nat)

lemma reverse_ptr_canonical:
  "generate_reverse_ptr (str_nat a @ ''.'' @ str_nat b @ ''.'' @ str_nat c @ ''.'' @ str_nat d) True
   = str_nat d @ ''.'' @ str_nat c @ ''.'' @ str_nat b @ ''.'' @ str_nat a @ ''.in-addr.arpa''"
  unfolding generate_reverse_ptr_def split_canonical
  by (simp add: idx_def)

text \<open>
  Claim C8. For a canonical valid address \<open>a.b.c.d\<close>: the scope is \<open>private_rfc1918\<close>
  exactly when \<open>a = 10\<close>, or \<open>a = 172\<close> and \<open>16 \<le> b \<le> 31\<close>, or \<open>a = 192\<close> and \<open>b = 168\<close>;
  \<open>default_subnet\<close> returns \<open>a.b.c.0/24\<close> for a private address and the empty text for
  every other scope; \<open>generate_reverse_ptr\<close> returns \<open>d.c.b.a.in-addr.arpa\<close> when the
  address is valid and the empty text when \<open>ip_valid\<close> is false.
\<close>

theorem scope_subnet_reverse_ptr:
  assumes "a \<le> 255" "b \<le> 255" "c \<le> 255" "d \<le> 255"
    and "ip = str_nat a @ ''.'' @ str_nat b @ ''.'' @ str_nat c @ ''.'' @ str_nat d"
  shows "ipv4_validate_and_normalize ip = (True, ip, ''4'', ''ok'')
    \<and> (classify_ipv4_type ip = ''private_rfc1918''
         \<longleftrightarrow> a = 10 \<or> (a = 172 \<and> 16 \<le> b \<and> b \<le> 31) \<or> (a = 192 \<and> b = 168))
    \<and> default_subnet ip
        = Inr (if classify_ipv4_type ip = ''private_rfc1918''
               then str_nat a @ ''.'' @ str_nat b @ ''.'' @ str_nat c @ ''.0/24'' else [])
    \<and> generate_reverse_ptr ip True
        = str_nat d @ ''.'' @ str_nat c @ ''.'' @ str_nat b @ ''.'' @ str_nat a @ ''.in-addr.arpa''
    \<and> generate_reverse_ptr anything False = []"
proof -
  have 1: "ipv4_validate_and_normalize ip = (True, ip, ''4'', ''ok'')"
    unfolding assms(5) using assms(1-4) by (rule ipv4_canonical_fixed)
  have 2: "classify_ipv4_type ip = ''private_rfc1918''
         \<longleftrightarrow> a = 10 \<or> (a = 172 \<and> 16 \<le> b \<and> b \<le> 31) \<or> (a = 192 \<and> b = 168)"
    unfolding assms(5) classify_canonical [OF assms(1-4)] by simp
  have 3: "default_subnet ip
        = Inr (if classify_ipv4_type ip = ''private_rfc1918''
               then str_nat a @ ''.'' @ str_nat b @ ''.'' @ str_nat c @ ''.0/24'' else [])"
    unfolding 2 unfolding assms(5) default_subnet_canonical [OF assms(1-4)] by simp
  have 4: "generate_reverse_ptr ip True
        = str_nat d @ ''.'' @ str_nat c @ ''.'' @ str_nat b @ ''.'' @ str_nat a @ ''.in-addr.arpa''"
    unfolding assms(5) by (rule reverse_ptr_canonical)
  have 5: "generate_reverse_ptr anything False = []"
    by (simp add: generate_reverse_ptr_def)
  show ?thesis using 1 2 3 4 5 by blast
qed

theorem scope_subnet_reverse_ptr_witness:
  "ipv4_validate_and_normalize ''10.1.2.3'' = (True, ''10.1.2.3'', ''4'', ''ok'')
   \<and> classify_ipv4_type ''10.1.2.3'' = ''private_rfc1918''
   \<and> default_subnet ''10.1.2.3'' = Inr ''10.1.2.0/24''
   \<and> generate_reverse_ptr ''10.1.2.3'' True = ''3.2.1.10.in-addr.arpa''
   \<and> generate_reverse_ptr ''10.1.2.3'' False = []"
  using scope_subnet_reverse_ptr [of 10 1 2 3 "''10.1.2.3''" "''10.1.2.3''"] by code_simp


section \<open>Fixed points of the normalizers\<close>

lemma strip_ends:
  assumes "strip s \<noteq> []"
  shows "\<not> isspace (hd (strip s))" "\<not> isspace (last (strip s))"
proof -
  define u where "u = dropWhile isspace s"
  have st: "strip s = rev (dropWhile isspace (rev u))" by (simp add: strip_def u_def)
  have ne: "dropWhile isspace (rev u) \<noteq> []" using assms st by simp
  have "rev u = takeWhile isspace (rev u) @ dropWhile isspace (rev u)" by simp
  then have "u = rev (dropWhile isspace (rev u)) @ rev (takeWhile isspace (rev u))"
    by (metis rev_append rev_rev_ident)
  then have u: "u = strip s @ rev (takeWhile isspace (rev u))" using st by simp
  then have "hd u = hd (strip s)" using assms by (metis hd_append2)
  moreover have "u \<noteq> []" using u assms by auto
  then have "\<not> isspace (hd u)" unfolding u_def by (rule hd_dropWhile)
  ultimately show "\<not> isspace (hd (strip s))" by simp
  have "last (strip s) = hd (dropWhile isspace (rev u))"
    using ne st by (simp add: last_rev)
  then show "\<not> isspace (last (strip s))" using hd_dropWhile [OF ne] by simp
qed

lemma strip_strip: "strip (strip s) = strip s"
proof (cases "strip s = []")
  case True
  have "strip [] = []" by (simp add: strip_def)
  then show ?thesis using True by simp
next
  case False
  then show ?thesis
    using strip_core [of "[]" "[]" "strip s"] strip_ends [OF False] by simp
qed

lemma upper_nonempty: "s \<noteq> [] \<Longrightarrow> upper s \<noteq> []"
  by (cases s) (auto simp: upper_def upper_char_def Let_def)

lemma ipv4_of_strip:
  assumes "ip_str \<noteq> []" "upper (strip ip_str) \<notin> {''N/A'', []}"
  shows "ipv4_validate_and_normalize (strip ip_str) = ipv4_validate_and_normalize ip_str"
proof -
  have "strip ip_str \<noteq> []" using assms(2) by (auto simp: upper_def)
  then show ?thesis using assms
    by (simp add: ipv4_validate_and_normalize_def strip_strip)
qed

lemma ipv4_idempotent:
  "ipv4_validate_and_normalize (fst (snd (ipv4_validate_and_normalize s)))
   = ipv4_validate_and_normalize s"
proof (cases "fst (ipv4_validate_and_normalize s)")
  case True
  then obtain c ver r where res: "ipv4_validate_and_normalize s = (True, c, ver, r)"
    by (cases "ipv4_validate_and_normalize s") auto
  from ipv4_valid_canonical [OF res] ipv4_canonical_fixed res show ?thesis by auto
next
  case False
  show ?thesis
  proof (cases "s = [] \<or> upper (strip s) \<in> {''N/A'', []}")
    case True
    then show ?thesis by (auto simp: ipv4_validate_and_normalize_def)
  next
    case miss: False
    then have "fst (snd (ipv4_validate_and_normalize s)) = strip s"
      using False
      by (auto simp: ipv4_validate_and_normalize_def Let_def split: sum.splits)
    then show ?thesis using miss ipv4_of_strip by simp
  qed
qed


lemma code_lower_hex:
  "is_hex c \<Longrightarrow> code (lower_char c) = (if 65 \<le> code c \<and> code c \<le> 70 then code c + 32 else code c)"
  by (auto simp: is_hex_def lower_char_def code_def Let_def)

lemma hex_lower_facts:
  assumes "is_hex c"
  shows "is_hex (lower_char c)" "\<not> isspace (lower_char c)" "lower_char c \<noteq> CHR ''-''"
    "lower_char c \<noteq> CHR '':''" "lower_char c \<noteq> CHR ''.''" "lower_char c \<noteq> CHR 0x0A"
    "lower_char (lower_char c) = lower_char c"
proof -
  define h where "h = lower_char c"
  have h: "(48 \<le> code h \<and> code h \<le> 57) \<or> (97 \<le> code h \<and> code h \<le> 102)"
    using assms code_lower_hex [OF assms] unfolding h_def
    by (auto simp: is_hex_def Let_def split: if_splits)
  show "is_hex (lower_char c)" using h by (auto simp: is_hex_def h_def [symmetric])
  show "\<not> isspace (lower_char c)" using h by (auto simp: isspace_def h_def [symmetric])
  show "lower_char c \<noteq> CHR ''-''" using h unfolding h_def [symmetric] by (auto simp: code_def)
  show "lower_char c \<noteq> CHR '':''" using h unfolding h_def [symmetric] by (auto simp: code_def)
  show "lower_char c \<noteq> CHR ''.''" using h unfolding h_def [symmetric] by (auto simp: code_def)
  show "lower_char c \<noteq> CHR 0x0A" using h unfolding h_def [symmetric] by (auto simp: code_def)
  show "lower_char (lower_char c) = lower_char c"
    using h unfolding h_def [symmetric] by (auto simp: lower_char_def Let_def)
qed

lemma mac_canonical_fixed:
  assumes "length t = 12" "list_all is_hex t"
  shows "normalize_mac (join '':'' (map (\<lambda>i. lower (take 2 (drop i t))) [0, 2, 4, 6, 8, 10]))
         = (True, join '':'' (map (\<lambda>i. lower (take 2 (drop i t))) [0, 2, 4, 6, 8, 10]), ''ok'')"
proof -
  from assms(1) obtain t1 t2 t3 t4 t5 t6 t7 t8 t9 t10 t11 t12
    where t: "t = [t1, t2, t3, t4, t5, t6, t7, t8, t9, t10, t11, t12]"
    by (auto simp: length_Suc_conv numeral_eq_Suc)
  define n where "n = join '':'' (map (\<lambda>i. lower (take 2 (drop i t))) [0, 2, 4, 6, 8, 10])"
  have hx: "is_hex t1" "is_hex t2" "is_hex t3" "is_hex t4" "is_hex t5" "is_hex t6"
    "is_hex t7" "is_hex t8" "is_hex t9" "is_hex t10" "is_hex t11" "is_hex t12"
    using assms(2) by (simp_all add: t)
  have n: "n = [lower_char t1, lower_char t2, CHR '':'', lower_char t3, lower_char t4, CHR '':'',
                lower_char t5, lower_char t6, CHR '':'', lower_char t7, lower_char t8, CHR '':'',
                lower_char t9, lower_char t10, CHR '':'', lower_char t11, lower_char t12]"
    by (simp add: n_def t lower_def)
  have strip: "strip n = n"
    using strip_core [of "[]" "[]" n] hx by (simp add: n hex_lower_facts)
  have cleaned: "filter (\<lambda>c. c \<notin> set ''-:.'') n
                 = map lower_char t"
    using hx by (simp add: n t hex_lower_facts)
  have re: "mac_re (map lower_char t)"
    using hx by (simp add: mac_re_def before_final_newline_def t hex_lower_facts)
  have again: "join '':'' (map (\<lambda>i. lower (take 2 (drop i (map lower_char t)))) [0, 2, 4, 6, 8, 10]) = n"
    using hx by (simp add: n t lower_def hex_lower_facts)
  have "normalize_mac n = (True, n, ''ok'')"
    unfolding normalize_mac_def strip Let_def cleaned
    using re again by (simp add: n)
  then show ?thesis by (simp add: n_def)
qed

lemma mac_valid_canonical:
  assumes "normalize_mac s = (True, c, r)"
  shows "\<exists>t. length t = 12 \<and> list_all is_hex t \<and> r = ''ok''
           \<and> c = join '':'' (map (\<lambda>i. lower (take 2 (drop i t))) [0, 2, 4, 6, 8, 10])"
proof -
  define cleaned where "cleaned = filter (\<lambda>c. c \<notin> set ''-:.'') (strip s)"
  define t where "t = before_final_newline cleaned"
  from assms have re: "mac_re cleaned" and r: "r = ''ok''"
    and c: "c = join '':'' (map (\<lambda>i. lower (take 2 (drop i cleaned))) [0, 2, 4, 6, 8, 10])"
    by (auto simp: normalize_mac_def Let_def cleaned_def split: if_splits)
  from re have t12: "length t = 12" "list_all is_hex t"
    by (simp_all add: mac_re_def t_def Let_def)
  have "\<exists>x. cleaned = t @ x"
    unfolding t_def before_final_newline_def
    by (cases "cleaned \<noteq> [] \<and> last cleaned = CHR 0x0A")
       (auto intro: append_butlast_last_id [symmetric])
  then obtain x where x: "cleaned = t @ x" by blast
  have "c = join '':'' (map (\<lambda>i. lower (take 2 (drop i t))) [0, 2, 4, 6, 8, 10])"
    unfolding c x using t12(1) by simp
  then show ?thesis using t12 r by blast
qed

lemma mac_idempotent:
  "normalize_mac (fst (snd (normalize_mac s))) = normalize_mac s"
proof (cases "fst (normalize_mac s)")
  case True
  then obtain c r where res: "normalize_mac s = (True, c, r)"
    by (cases "normalize_mac s") auto
  from mac_valid_canonical [OF res] mac_canonical_fixed res show ?thesis by auto
next
  case False
  show ?thesis
  proof (cases "s = [] \<or> strip s = []")
    case True
    then show ?thesis by (auto simp: normalize_mac_def)
  next
    case ne: False
    then have "normalize_mac s = (False, strip s, ''invalid_format'')"
      using False by (auto simp: normalize_mac_def Let_def split: if_splits)
    then show ?thesis using ne
      by (auto simp: normalize_mac_def Let_def strip_strip split: if_splits)
  qed
qed

text \<open>
  Claim C5, amended: \<open>ipv4_validate_and_normalize\<close> and \<open>normalize_mac\<close> are idempotent on
  their outputs. For every input, running the function again on the value it produced
  gives the same outcome, so the value is a fixed point.
\<close>

theorem ip_mac_idempotent:
  "ipv4_validate_and_normalize (fst (snd (ipv4_validate_and_normalize s)))
     = ipv4_validate_and_normalize s
   \<and> normalize_mac (fst (snd (normalize_mac s))) = normalize_mac s"
  using ipv4_idempotent mac_idempotent by simp

text \<open>
  Claim C5, as stated, also covers \<open>normalize_site\<close>. The abbreviations are replaced before
  a blank is put between a letter and a digit, so \<open>bldg1\<close> becomes \<open>bldg 1\<close>, and that
  text becomes \<open>Building 1\<close> when it is normalized again.
\<close>

theorem site_idempotence_counterexample:
  "normalize_site ''bldg1'' = ''bldg 1''
   \<and> normalize_site ''bldg 1'' = ''Building 1''
   \<and> normalize_site (normalize_site ''bldg1'') \<noteq> normalize_site ''bldg1''"
  by code_simp

theorem ip_mac_idempotent_witness:
  "ipv4_validate_and_normalize '' 010.001.2.255 '' = (True, ''10.1.2.255'', ''4'', ''ok'')
   \<and> ipv4_validate_and_normalize ''10.1.2.255'' = (True, ''10.1.2.255'', ''4'', ''ok'')
   \<and> normalize_mac ''AA-BB-CC-DD-EE-FF'' = (True, ''aa:bb:cc:dd:ee:ff'', ''ok'')
   \<and> normalize_mac ''aa:bb:cc:dd:ee:ff'' = (True, ''aa:bb:cc:dd:ee:ff'', ''ok'')"
proof -
  have a: "ipv4_validate_and_normalize '' 010.001.2.255 '' = (True, ''10.1.2.255'', ''4'', ''ok'')"
    by code_simp
  have b: "normalize_mac ''AA-BB-CC-DD-EE-FF'' = (True, ''aa:bb:cc:dd:ee:ff'', ''ok'')"
    by code_simp
  show ?thesis
    using ip_mac_idempotent [of "'' 010.001.2.255 ''"] ip_mac_idempotent [of "''AA-BB-CC-DD-EE-FF''"]
    unfolding a b by simp
qed

section \<open>The pipeline, stage by stage\<close>

lemma get_texts: "cell row k = Some v \<Longrightarrow> get (texts row) k = v"
  by (auto simp: cell_def texts_def get_def split: option.splits)

lemma default_subnet_of_valid:
  assumes "fst (ipv4_validate_and_normalize raw_ip)"
  shows "\<exists>subnet. default_subnet (fst (snd (ipv4_validate_and_normalize raw_ip))) = Inr subnet"
proof -
  from assms obtain c ver r where res: "ipv4_validate_and_normalize raw_ip = (True, c, ver, r)"
    by (cases "ipv4_validate_and_normalize raw_ip") auto
  from ipv4_valid_canonical [OF res] obtain a b d e where
    "a \<le> 255" "b \<le> 255" "d \<le> 255" "e \<le> 255"
    "c = str_nat a @ ''.'' @ str_nat b @ ''.'' @ str_nat d @ ''.'' @ str_nat e"
    by blast
  then show ?thesis
    using default_subnet_canonical [of a b d e] by (simp add: res)
qed

lemma ip_stage_result:
  "\<exists>subnet_cidr reverse_ptr.
     ip_stage (Some raw_ip) steps row_anomalies =
       Inr (steps @ (if fst (ipv4_validate_and_normalize raw_ip)
                     then [''ip_trim'', ''ip_parse'', ''ip_normalize'']
                     else [''ip_trim'', ''ip_invalid_'' @ snd (snd (snd (ipv4_validate_and_normalize raw_ip)))]),
            row_anomalies @ (if fst (ipv4_validate_and_normalize raw_ip) then []
                             else [\<lparr>issue_field = ''ip'',
                                    issue_type = snd (snd (snd (ipv4_validate_and_normalize raw_ip))),
                                    issue_value = Some raw_ip\<rparr>]),
            subnet_cidr, reverse_ptr)"
proof (cases "fst (ipv4_validate_and_normalize raw_ip)")
  case True
  from default_subnet_of_valid [OF True] obtain subnet
    where "default_subnet (fst (snd (ipv4_validate_and_normalize raw_ip))) = Inr subnet" by blast
  then show ?thesis using True
    by (auto simp: ip_stage_def Let_def split: prod.splits)
next
  case False
  then show ?thesis
    by (auto simp: ip_stage_def Let_def split: prod.splits)
qed

lemma hostname_stage_result:
  "hostname_stage (Some raw_hostname) steps row_anomalies =
     Inr (steps @ (if fst (validate_hostname raw_hostname) then [''hostname_trim'', ''hostname_validate'']
               else [''hostname_trim'', ''hostname_invalid_'' @ snd (validate_hostname raw_hostname)]),
      row_anomalies @ (if \<not> fst (validate_hostname raw_hostname) \<and> strip raw_hostname \<noteq> []
                       then [\<lparr>issue_field = ''hostname'',
                              issue_type = snd (validate_hostname raw_hostname),
                              issue_value = Some raw_hostname\<rparr>]
                       else []),
      strip raw_hostname)"
  by (auto simp: hostname_stage_def Let_def split: prod.splits)

lemma fqdn_stage_result:
  "fqdn_stage (Some raw_fqdn) hostname_out steps row_anomalies =
     Inr (steps @ (if fst (validate_fqdn raw_fqdn) then [''fqdn_trim'', ''fqdn_validate'']
               else [''fqdn_trim'']),
      row_anomalies @ (if \<not> fst (validate_fqdn raw_fqdn) \<and> strip raw_fqdn \<noteq> []
                       then [\<lparr>issue_field = ''fqdn'',
                              issue_type = snd (validate_fqdn raw_fqdn),
                              issue_value = Some raw_fqdn\<rparr>]
                       else []),
      strip raw_fqdn,
      fst (validate_fqdn raw_fqdn) \<and> check_fqdn_consistency hostname_out (strip raw_fqdn))"
  by (auto simp: fqdn_stage_def Let_def split: prod.splits)

lemma mac_stage_result:
  "mac_stage (Some raw_mac) steps row_anomalies =
     Inr (steps @ (if fst (normalize_mac raw_mac) then [''mac_trim'', ''mac_normalize'']
               else if strip raw_mac \<noteq> []
               then [''mac_trim'', ''mac_invalid_'' @ snd (snd (normalize_mac raw_mac))]
               else [''mac_trim'']),
      row_anomalies @ (if \<not> fst (normalize_mac raw_mac) \<and> strip raw_mac \<noteq> []
                       then [\<lparr>issue_field = ''mac'',
                              issue_type = snd (snd (normalize_mac raw_mac)),
                              issue_value = Some raw_mac\<rparr>]
                       else []),
      if fst (normalize_mac raw_mac) then fst (snd (normalize_mac raw_mac)) else strip raw_mac)"
  by (auto simp: mac_stage_def Let_def split: prod.splits)

lemma classify_cells_result:
  assumes "cell row ''ip'' = Some ip" "cell row ''hostname'' = Some hostname"
    "cell row ''device_type'' = Some device_type" "cell row ''notes'' = Some notes"
  shows "classify_device_type_cells be row = Inr (classify_device_type_llm be (texts row))"
  using assms by (simp add: classify_device_type_cells_def)

text \<open>The trace and the issues of a row whose cells are text, stage by stage.\<close>

lemma process_row_result:
  assumes "cell row ''ip'' = Some ip" "cell row ''hostname'' = Some hostname"
    "cell row ''fqdn'' = Some fqdn" "cell row ''mac'' = Some mac"
    "cell row ''device_type'' = Some device_type" "cell row ''notes'' = Some notes"
    "cell row ''site'' = Some site"
  shows "\<exists>out.
     process_row be row =
       Inr (out,
            (if fst (ipv4_validate_and_normalize ip) then []
             else [\<lparr>issue_field = ''ip'',
                    issue_type = snd (snd (snd (ipv4_validate_and_normalize ip))),
                    issue_value = Some ip\<rparr>])
            @ (if \<not> fst (validate_hostname hostname) \<and> strip hostname \<noteq> []
               then [\<lparr>issue_field = ''hostname'',
                      issue_type = snd (validate_hostname hostname),
                      issue_value = Some hostname\<rparr>]
               else [])
            @ (if \<not> fst (validate_fqdn fqdn) \<and> strip fqdn \<noteq> []
               then [\<lparr>issue_field = ''fqdn'',
                      issue_type = snd (validate_fqdn fqdn),
                      issue_value = Some fqdn\<rparr>]
               else [])
            @ (if \<not> fst (normalize_mac mac) \<and> strip mac \<noteq> []
               then [\<lparr>issue_field = ''mac'',
                      issue_type = snd (snd (normalize_mac mac)),
                      issue_value = Some mac\<rparr>]
               else []))
     \<and> out_normalization_steps out =
         join ''|''
           ((if fst (ipv4_validate_and_normalize ip)
             then [''ip_trim'', ''ip_parse'', ''ip_normalize'']
             else [''ip_trim'',
                   ''ip_invalid_'' @ snd (snd (snd (ipv4_validate_and_normalize ip)))])
            @ (if fst (validate_hostname hostname)
               then [''hostname_trim'', ''hostname_validate'']
               else [''hostname_trim'',
                     ''hostname_invalid_'' @ snd (validate_hostname hostname)])
            @ (if fst (validate_fqdn fqdn) then [''fqdn_trim'', ''fqdn_validate'']
               else [''fqdn_trim''])
            @ (if fst (normalize_mac mac) then [''mac_trim'', ''mac_normalize'']
               else if strip mac \<noteq> []
               then [''mac_trim'', ''mac_invalid_'' @ snd (snd (normalize_mac mac))]
               else [''mac_trim''])
            @ [''owner_parse_llm'',
               ''device_classify_llm_'' @ snd (classify_device_type_llm be (texts row)),
               ''site_normalize''])
     \<and> out_fqdn_consistent out =
         true_false (fst (validate_fqdn fqdn)
                     \<and> check_fqdn_consistency (strip hostname) (strip fqdn))"
proof -
  obtain subnet_cidr reverse_ptr where ip:
    "ip_stage (Some ip) [] [] =
       Inr ([] @ (if fst (ipv4_validate_and_normalize ip)
                     then [''ip_trim'', ''ip_parse'', ''ip_normalize'']
                     else [''ip_trim'', ''ip_invalid_'' @ snd (snd (snd (ipv4_validate_and_normalize ip)))]),
            [] @ (if fst (ipv4_validate_and_normalize ip) then []
                             else [\<lparr>issue_field = ''ip'',
                                    issue_type = snd (snd (snd (ipv4_validate_and_normalize ip))),
                                    issue_value = Some ip\<rparr>]),
            subnet_cidr, reverse_ptr)"
    using ip_stage_result [of ip "[]" "[]"] by blast
  have cls: "classify_device_type_cells be row = Inr (classify_device_type_llm be (texts row))"
    using assms(1,2,5,6) by (rule classify_cells_result)
  show ?thesis
    unfolding process_row_def Let_def assms ip hostname_stage_result fqdn_stage_result
      mac_stage_result cls
    by (simp split: prod.splits split del: if_split)
qed


section \<open>Device classification\<close>

lemma startswith_iff: "startswith s p \<longleftrightarrow> (\<exists>v. s = p @ v)"
proof
  assume "startswith s p"
  then have "s = p @ drop (length p) s"
    unfolding startswith_def by (metis append_take_drop_id)
  then show "\<exists>v. s = p @ v" by blast
next
  assume "\<exists>v. s = p @ v"
  then show "startswith s p" by (auto simp: startswith_def)
qed

lemma contains_iff: "contains s x \<longleftrightarrow> (\<exists>u v. s = u @ x @ v)"
proof (induction s)
  case Nil
  then show ?case by auto
next
  case (Cons c cs)
  show ?case
  proof
    assume "contains (c # cs) x"
    then consider "startswith (c # cs) x" | "contains cs x" by auto
    then show "\<exists>u v. c # cs = u @ x @ v"
    proof cases
      case 1
      then obtain v where "c # cs = x @ v" unfolding startswith_iff by blast
      then have "c # cs = [] @ x @ v" by simp
      then show ?thesis by blast
    next
      case 2
      then obtain u v where "cs = u @ x @ v" using Cons.IH by blast
      then have "c # cs = (c # u) @ x @ v" by simp
      then show ?thesis by blast
    qed
  next
    assume "\<exists>u v. c # cs = u @ x @ v"
    then obtain u v where uv: "c # cs = u @ x @ v" by blast
    show "contains (c # cs) x"
    proof (cases u)
      case Nil
      then have "startswith (c # cs) x" using uv unfolding startswith_iff by auto
      then show ?thesis by simp
    next
      case (Cons a u')
      then have "cs = u' @ x @ v" using uv by simp
      then have "contains cs x" using Cons.IH by blast
      then show ?thesis by simp
    qed
  qed
qed




section \<open>Anomalies\<close>

lemma process_single:
  "process_row be row = Inr (out, iss) \<Longrightarrow>
   process be [row] anomalies =
     Inr ([out], if iss = [] then anomalies
                 else anomalies @ [\<lparr>source_row_id = cell row ''source_row_id'', issues = iss,
                                     recommended_actions = generate_recommendations iss\<rparr>])"
  by (simp add: process_def)

lemma recommendations_loop_map_filter:
  "recommendations_loop acc l = acc @ List.map_filter recommendation_for l"
  by (induction l arbitrary: acc) (simp_all add: map_filter_simps recommendation_for_def)

lemma generate_recommendations_map_filter:
  "generate_recommendations l =
     (if List.map_filter recommendation_for l = [] then [''Review and correct field data'']
      else List.map_filter recommendation_for l)"
  by (simp add: generate_recommendations_def recommendations_loop_map_filter)

lemma map_filter_all_some:
  "(\<And>i. i \<in> set l \<Longrightarrow> f i \<noteq> None) \<Longrightarrow> map Some (List.map_filter f l) = map f l"
  by (induction l) (auto simp: map_filter_simps split: option.splits)

lemma known_field_recommendation:
  "issue_field i \<in> {''ip'', ''hostname'', ''fqdn'', ''mac''} \<Longrightarrow> recommendation_for i \<noteq> None"
  by (auto simp: recommendation_for_def)

lemma process_row_issues:
  assumes "cell row ''ip'' = Some ip" "cell row ''hostname'' = Some hostname"
    "cell row ''fqdn'' = Some fqdn" "cell row ''mac'' = Some mac"
    "cell row ''device_type'' = Some device_type" "cell row ''notes'' = Some notes"
    "cell row ''site'' = Some site"
  shows "\<exists>out. process_row be row =
       Inr (out,
            (if fst (ipv4_validate_and_normalize ip) then []
             else [\<lparr>issue_field = ''ip'',
                    issue_type = snd (snd (snd (ipv4_validate_and_normalize ip))),
                    issue_value = Some ip\<rparr>])
            @ (if \<not> fst (validate_hostname hostname) \<and> strip hostname \<noteq> []
               then [\<lparr>issue_field = ''hostname'',
                      issue_type = snd (validate_hostname hostname),
                      issue_value = Some hostname\<rparr>]
               else [])
            @ (if \<not> fst (validate_fqdn fqdn) \<and> strip fqdn \<noteq> []
               then [\<lparr>issue_field = ''fqdn'',
                      issue_type = snd (validate_fqdn fqdn),
                      issue_value = Some fqdn\<rparr>]
               else [])
            @ (if \<not> fst (normalize_mac mac) \<and> strip mac \<noteq> []
               then [\<lparr>issue_field = ''mac'',
                      issue_type = snd (snd (normalize_mac mac)),
                      issue_value = Some mac\<rparr>]
               else []))"
  using process_row_result [OF assms, of be] by blast

lemma process_row_fields:
  assumes "cell row ''ip'' = Some ip" "cell row ''hostname'' = Some hostname"
    "cell row ''fqdn'' = Some fqdn" "cell row ''mac'' = Some mac"
    "cell row ''device_type'' = Some device_type" "cell row ''notes'' = Some notes"
    "cell row ''site'' = Some site"
    and "process_row be row = Inr (out, iss)" "i \<in> set iss"
  shows "issue_field i \<in> {''ip'', ''hostname'', ''fqdn'', ''mac''}"
proof -
  from process_row_issues [OF assms(1-7), of be] assms(8) have
    "iss = (if fst (ipv4_validate_and_normalize ip) then []
             else [\<lparr>issue_field = ''ip'',
                    issue_type = snd (snd (snd (ipv4_validate_and_normalize ip))),
                    issue_value = Some ip\<rparr>])
            @ (if \<not> fst (validate_hostname hostname) \<and> strip hostname \<noteq> []
               then [\<lparr>issue_field = ''hostname'',
                      issue_type = snd (validate_hostname hostname),
                      issue_value = Some hostname\<rparr>]
               else [])
            @ (if \<not> fst (validate_fqdn fqdn) \<and> strip fqdn \<noteq> []
               then [\<lparr>issue_field = ''fqdn'',
                      issue_type = snd (validate_fqdn fqdn),
                      issue_value = Some fqdn\<rparr>]
               else [])
            @ (if \<not> fst (normalize_mac mac) \<and> strip mac \<noteq> []
               then [\<lparr>issue_field = ''mac'',
                      issue_type = snd (snd (normalize_mac mac)),
                      issue_value = Some mac\<rparr>]
               else [])"
    by auto
  with assms(9) show ?thesis by (auto split: if_splits)
qed

text \<open>
  Claim C7, as stated, speaks of every input record. For a line of the file that ends
  after the IP column the reader yields \<open>None\<close> in the other cells: the IP stage collects
  an issue, the hostname stage raises \<open>AttributeError\<close>, and no anomaly is built.
\<close>

theorem anomaly_iff_issues_counterexample:
  "ip_stage (Some ''300.1.1.1'') [] []
     = Inr ([''ip_trim'', ''ip_invalid_octet_out_of_range''],
            [\<lparr>issue_field = ''ip'', issue_type = ''octet_out_of_range'',
               issue_value = Some ''300.1.1.1''\<rparr>],
            [], [])
   \<and> process offline
        [[''source_row_id'' \<mapsto> Some ''1'', ''ip'' \<mapsto> Some ''300.1.1.1'', ''hostname'' \<mapsto> None,
          ''fqdn'' \<mapsto> None, ''mac'' \<mapsto> None, ''owner'' \<mapsto> None, ''device_type'' \<mapsto> None,
          ''site'' \<mapsto> None, ''notes'' \<mapsto> None]] []
       = Inl AttributeError"
  by code_simp

text \<open>
  Claim C7, amended. For every row whose cells \<open>ip\<close>, \<open>hostname\<close>, \<open>fqdn\<close>, \<open>mac\<close>,
  \<open>device_type\<close>, \<open>notes\<close> and \<open>site\<close> are text, processing succeeds and appends an anomaly
  exactly when the issues collected for the row are not empty; the anomaly carries these
  issues and one recommendation per issue, in issue order, each given by the field and
  reason mapping. In general \<open>generate_recommendations\<close> returns the recommendations of
  the issues that a rule names, and the single default text when there is none.
\<close>

theorem anomaly_iff_issues:
  assumes "cell row ''ip'' = Some ip" "cell row ''hostname'' = Some hostname"
    "cell row ''fqdn'' = Some fqdn" "cell row ''mac'' = Some mac"
    "cell row ''device_type'' = Some device_type" "cell row ''notes'' = Some notes"
    "cell row ''site'' = Some site"
  shows "(\<exists>out iss.
      process_row be row = Inr (out, iss)
      \<and> process be [row] anomalies =
          Inr ([out],
               if iss = [] then anomalies
               else anomalies @ [\<lparr>source_row_id = cell row ''source_row_id'', issues = iss,
                                   recommended_actions = generate_recommendations iss\<rparr>])
      \<and> (iss \<noteq> [] \<longrightarrow> map Some (generate_recommendations iss) = map recommendation_for iss
                        \<and> length (generate_recommendations iss) = length iss))
   \<and> generate_recommendations l =
       (if List.map_filter recommendation_for l = [] then [''Review and correct field data'']
        else List.map_filter recommendation_for l)"
proof -
  from process_row_result [OF assms, of be] obtain out iss
    where pr: "process_row be row = Inr (out, iss)" by blast
  have some: "map Some (List.map_filter recommendation_for iss) = map recommendation_for iss"
    using process_row_fields [OF assms pr] known_field_recommendation
    by (intro map_filter_all_some) blast
  have rec: "map Some (generate_recommendations iss) = map recommendation_for iss" if "iss \<noteq> []"
  proof -
    have "List.map_filter recommendation_for iss \<noteq> []"
      using some that by (metis map_is_Nil_conv)
    then show ?thesis using some by (simp add: generate_recommendations_map_filter)
  qed
  have len: "length (generate_recommendations iss) = length iss" if "iss \<noteq> []"
    using rec [OF that] by (metis length_map)
  show ?thesis
    using pr process_single [OF pr] rec len generate_recommendations_map_filter by blast
qed

theorem anomaly_iff_issues_witness:
  "\<exists>out. process offline
            [[''ip'' \<mapsto> Some ''300.1.1.1'', ''hostname'' \<mapsto> Some ''web-01'',
              ''fqdn'' \<mapsto> Some ''web-01.corp.example.com'', ''mac'' \<mapsto> Some ''AA-BB-CC-DD-EE-FF'']] []
          = Inr ([out],
                 [\<lparr>source_row_id = Some [],
                   issues = [\<lparr>issue_field = ''ip'', issue_type = ''octet_out_of_range'',
                              issue_value = Some ''300.1.1.1''\<rparr>],
                   recommended_actions = [''Correct IP octets to valid range (0-255)'']\<rparr>])"
proof -
  define r :: csv_row where "r = [''ip'' \<mapsto> Some ''300.1.1.1'', ''hostname'' \<mapsto> Some ''web-01'',
              ''fqdn'' \<mapsto> Some ''web-01.corp.example.com'', ''mac'' \<mapsto> Some ''AA-BB-CC-DD-EE-FF'']"
  have c: "cell r ''ip'' = Some ''300.1.1.1''" "cell r ''hostname'' = Some ''web-01''"
    "cell r ''fqdn'' = Some ''web-01.corp.example.com''" "cell r ''mac'' = Some ''AA-BB-CC-DD-EE-FF''"
    "cell r ''device_type'' = Some []" "cell r ''notes'' = Some []" "cell r ''site'' = Some []"
    unfolding r_def by code_simp+
  from anomaly_iff_issues [OF c, of offline "[]"] obtain out iss
    where pr: "process_row offline r = Inr (out, iss)"
      and p: "process offline [r] [] =
          Inr ([out],
               if iss = [] then []
               else [] @ [\<lparr>source_row_id = cell r ''source_row_id'', issues = iss,
                                   recommended_actions = generate_recommendations iss\<rparr>])"
    by blast
  have "map_sum id snd (process_row offline r)
        = Inr [\<lparr>issue_field = ''ip'', issue_type = ''octet_out_of_range'', issue_value = Some ''300.1.1.1''\<rparr>]"
    unfolding r_def by code_simp
  then have iss: "iss = [\<lparr>issue_field = ''ip'', issue_type = ''octet_out_of_range'', issue_value = Some ''300.1.1.1''\<rparr>]"
    using pr by simp
  have g: "generate_recommendations [\<lparr>issue_field = ''ip'', issue_type = ''octet_out_of_range'', issue_value = Some ''300.1.1.1''\<rparr>]
           = [''Correct IP octets to valid range (0-255)'']"
    by code_simp
  have id: "cell r ''source_row_id'' = Some []" unfolding r_def by code_simp
  show ?thesis using p unfolding iss g id unfolding r_def by auto
qed

section \<open>Claims about the pipeline\<close>

text \<open>
  Claim C2, as stated: the emitted \<open>fqdn_consistent\<close> flag is true exactly when hostname
  and FQDN are both non-empty and the FQDN starts, ignoring case, with the hostname and a
  dot, whether or not the FQDN is valid. The pipeline calls the check only for a valid
  FQDN: for hostname \<open>web\<close> and FQDN \<open>web.-bad\<close> the flag is \<open>false\<close>.
\<close>

theorem fqdn_consistent_flag_counterexample:
  "''web'' \<noteq> [] \<and> ''web.-bad'' \<noteq> []
   \<and> startswith (lower ''web.-bad'') (lower ''web'' @ ''.'')
   \<and> map_sum id (out_fqdn_consistent \<circ> fst)
        (process_row offline
           [''ip'' \<mapsto> Some ''10.1.2.3'', ''hostname'' \<mapsto> Some ''web'', ''fqdn'' \<mapsto> Some ''web.-bad''])
       = Inr ''false''"
  by code_simp

text \<open>
  Claim C2, amended: \<open>check_fqdn_consistency\<close> is true exactly when both arguments are
  non-empty and the lower-cased FQDN starts with the lower-cased hostname and a dot. The
  emitted flag is \<open>true\<close> exactly when the FQDN passes \<open>validate_fqdn\<close> and that check
  holds of the trimmed hostname and the trimmed FQDN; it does not depend on the validity
  of the hostname. A flag is emitted for the rows whose cells are text.
\<close>

theorem fqdn_consistent_flag:
  assumes "cell row ''ip'' = Some ip" "cell row ''hostname'' = Some hostname"
    "cell row ''fqdn'' = Some fqdn" "cell row ''mac'' = Some mac"
    "cell row ''device_type'' = Some device_type" "cell row ''notes'' = Some notes"
    "cell row ''site'' = Some site"
  shows "(check_fqdn_consistency h f
      \<longleftrightarrow> h \<noteq> [] \<and> f \<noteq> [] \<and> startswith (lower f) (lower h @ ''.''))
   \<and> (\<exists>out iss.
         process_row be row = Inr (out, iss)
         \<and> out_fqdn_consistent out \<in> {''true'', ''false''}
         \<and> (out_fqdn_consistent out = ''true''
              \<longleftrightarrow> fst (validate_fqdn fqdn)
                  \<and> strip hostname \<noteq> [] \<and> strip fqdn \<noteq> []
                  \<and> startswith (lower (strip fqdn)) (lower (strip hostname) @ ''.'')))"
proof -
  have chk: "check_fqdn_consistency x y
      \<longleftrightarrow> x \<noteq> [] \<and> y \<noteq> [] \<and> startswith (lower y) (lower x @ ''.'')" for x y
    by (simp add: check_fqdn_consistency_def)
  from process_row_result [OF assms, of be] obtain out iss
    where pr: "process_row be row = Inr (out, iss)"
      and flag: "out_fqdn_consistent out =
         true_false (fst (validate_fqdn fqdn)
                     \<and> check_fqdn_consistency (strip hostname) (strip fqdn))"
    by blast
  have "out_fqdn_consistent out \<in> {''true'', ''false''}"
    unfolding flag by (simp add: true_false_def)
  moreover have "out_fqdn_consistent out = ''true''
              \<longleftrightarrow> fst (validate_fqdn fqdn)
                  \<and> strip hostname \<noteq> [] \<and> strip fqdn \<noteq> []
                  \<and> startswith (lower (strip fqdn)) (lower (strip hostname) @ ''.'')"
    unfolding flag chk by (simp add: true_false_def)
  ultimately show ?thesis using pr chk by blast
qed

theorem fqdn_consistent_flag_witness:
  "\<not> fst (validate_hostname ''web.corp'')
   \<and> (\<exists>out iss. process_row offline
       [''ip'' \<mapsto> Some ''10.1.2.3'', ''hostname'' \<mapsto> Some ''web.corp'',
        ''fqdn'' \<mapsto> Some '' WEB.corp.example.com ''] =
        Inr (out, iss) \<and> out_fqdn_consistent out = ''true'')"
proof -
  define r :: csv_row where "r = [''ip'' \<mapsto> Some ''10.1.2.3'', ''hostname'' \<mapsto> Some ''web.corp'',
                       ''fqdn'' \<mapsto> Some '' WEB.corp.example.com '']"
  have c: "cell r ''ip'' = Some ''10.1.2.3''" "cell r ''hostname'' = Some ''web.corp''"
    "cell r ''fqdn'' = Some '' WEB.corp.example.com ''" "cell r ''mac'' = Some []"
    "cell r ''device_type'' = Some []" "cell r ''notes'' = Some []" "cell r ''site'' = Some []"
    unfolding r_def by code_simp+
  have v: "fst (validate_fqdn '' WEB.corp.example.com '')
                  \<and> strip ''web.corp'' \<noteq> [] \<and> strip '' WEB.corp.example.com '' \<noteq> []
                  \<and> startswith (lower (strip '' WEB.corp.example.com ''))
                       (lower (strip ''web.corp'') @ ''.'')"
    by code_simp
  have h: "\<not> fst (validate_hostname ''web.corp'')" by code_simp
  show ?thesis
    using fqdn_consistent_flag [OF c, of "[]" "[]" offline] v h unfolding r_def by blast
qed

text \<open>
  Claim C3, as stated: each of the seven stages puts a \<open><field>_trim\<close> token first and then
  its success tokens or a failure token. In the row below the FQDN is invalid and the
  trace has no failure token for it; the owner, device-type and site stages have no trim
  token.
\<close>

theorem trace_tokens_counterexample:
  "validate_fqdn ''web.-bad'' = (False, ''invalid_label_format'')
   \<and> map_sum id (out_normalization_steps \<circ> fst)
        (process_row offline
           [''ip'' \<mapsto> Some ''10.1.2.3'', ''hostname'' \<mapsto> Some ''web'', ''fqdn'' \<mapsto> Some ''web.-bad'',
            ''mac'' \<mapsto> Some ''AA-BB-CC-DD-EE-FF'', ''owner'' \<mapsto> Some ''ops'', ''site'' \<mapsto> Some ''hq''])
       = Inr ''ip_trim|ip_parse|ip_normalize|hostname_trim|hostname_validate|fqdn_trim|mac_trim|mac_normalize|owner_parse_llm|device_classify_llm_medium|site_normalize''
   \<and> \<not> contains ''ip_trim|ip_parse|ip_normalize|hostname_trim|hostname_validate|fqdn_trim|mac_trim|mac_normalize|owner_parse_llm|device_classify_llm_medium|site_normalize''
                   ''fqdn_invalid_''
   \<and> \<not> contains ''ip_trim|ip_parse|ip_normalize|hostname_trim|hostname_validate|fqdn_trim|mac_trim|mac_normalize|owner_parse_llm|device_classify_llm_medium|site_normalize''
                   ''owner_trim''
   \<and> \<not> contains ''ip_trim|ip_parse|ip_normalize|hostname_trim|hostname_validate|fqdn_trim|mac_trim|mac_normalize|owner_parse_llm|device_classify_llm_medium|site_normalize''
                   ''site_trim''"
  by code_simp

text \<open>
  Claim C3, amended: for a row whose cells \<open>ip\<close>, \<open>hostname\<close>, \<open>fqdn\<close>, \<open>mac\<close>,
  \<open>device_type\<close>, \<open>notes\<close> and \<open>site\<close> are text, processing succeeds and the trace is, in
  this order: \<open>ip_trim\<close> followed by \<open>ip_parse\<close>, \<open>ip_normalize\<close> or by
  \<open>ip_invalid_<reason>\<close>; \<open>hostname_trim\<close> followed by \<open>hostname_validate\<close> or by
  \<open>hostname_invalid_<reason>\<close>; \<open>fqdn_trim\<close>, followed by \<open>fqdn_validate\<close> when the FQDN is
  valid; \<open>mac_trim\<close> followed by \<open>mac_normalize\<close>, or by \<open>mac_invalid_<reason>\<close> when the MAC
  is invalid and not empty, or by nothing when it is empty; then the single tokens
  \<open>owner_parse_llm\<close>, \<open>device_classify_llm_<confidence>\<close> and \<open>site_normalize\<close>, whatever the
  backend is.
\<close>

theorem trace_tokens:
  assumes "cell row ''ip'' = Some ip" "cell row ''hostname'' = Some hostname"
    "cell row ''fqdn'' = Some fqdn" "cell row ''mac'' = Some mac"
    "cell row ''device_type'' = Some device_type" "cell row ''notes'' = Some notes"
    "cell row ''site'' = Some site"
  shows "\<exists>out iss fqdn_tokens.
     process_row be row = Inr (out, iss)
     \<and> out_normalization_steps out =
         join ''|''
           ((if fst (ipv4_validate_and_normalize ip)
             then [''ip_trim'', ''ip_parse'', ''ip_normalize'']
             else [''ip_trim'',
                   ''ip_invalid_'' @ snd (snd (snd (ipv4_validate_and_normalize ip)))])
            @ (if fst (validate_hostname hostname)
               then [''hostname_trim'', ''hostname_validate'']
               else [''hostname_trim'',
                     ''hostname_invalid_'' @ snd (validate_hostname hostname)])
            @ [''fqdn_trim''] @ fqdn_tokens
            @ (if fst (normalize_mac mac) then [''mac_trim'', ''mac_normalize'']
               else if strip mac \<noteq> []
               then [''mac_trim'', ''mac_invalid_'' @ snd (snd (normalize_mac mac))]
               else [''mac_trim''])
            @ [''owner_parse_llm'',
               ''device_classify_llm_'' @ snd (classify_device_type_llm be (texts row)),
               ''site_normalize''])
     \<and> (fst (validate_fqdn fqdn) \<longrightarrow> fqdn_tokens = [''fqdn_validate''])"
proof -
  define fqdn_tokens where
    "fqdn_tokens = (if fst (validate_fqdn fqdn) then [''fqdn_validate''] else [])"
  have eq: "(if fst (validate_fqdn fqdn) then [''fqdn_trim'', ''fqdn_validate'']
             else [''fqdn_trim'']) = [''fqdn_trim''] @ fqdn_tokens"
    by (simp add: fqdn_tokens_def)
  have imp: "fst (validate_fqdn fqdn) \<longrightarrow> fqdn_tokens = [''fqdn_validate'']"
    by (simp add: fqdn_tokens_def)
  from process_row_result [OF assms, of be] obtain out iss where
    pr: "process_row be row = Inr (out, iss)" and
    st: "out_normalization_steps out =
         join ''|''
           ((if fst (ipv4_validate_and_normalize ip)
             then [''ip_trim'', ''ip_parse'', ''ip_normalize'']
             else [''ip_trim'',
                   ''ip_invalid_'' @ snd (snd (snd (ipv4_validate_and_normalize ip)))])
            @ (if fst (validate_hostname hostname)
               then [''hostname_trim'', ''hostname_validate'']
               else [''hostname_trim'',
                     ''hostname_invalid_'' @ snd (validate_hostname hostname)])
            @ (if fst (validate_fqdn fqdn) then [''fqdn_trim'', ''fqdn_validate'']
               else [''fqdn_trim''])
            @ (if fst (normalize_mac mac) then [''mac_trim'', ''mac_normalize'']
               else if strip mac \<noteq> []
               then [''mac_trim'', ''mac_invalid_'' @ snd (snd (normalize_mac mac))]
               else [''mac_trim''])
            @ [''owner_parse_llm'',
               ''device_classify_llm_'' @ snd (classify_device_type_llm be (texts row)),
               ''site_normalize''])"
    by blast
  have "out_normalization_steps out =
         join ''|''
           ((if fst (ipv4_validate_and_normalize ip)
             then [''ip_trim'', ''ip_parse'', ''ip_normalize'']
             else [''ip_trim'',
                   ''ip_invalid_'' @ snd (snd (snd (ipv4_validate_and_normalize ip)))])
            @ (if fst (validate_hostname hostname)
               then [''hostname_trim'', ''hostname_validate'']
               else [''hostname_trim'',
                     ''hostname_invalid_'' @ snd (validate_hostname hostname)])
            @ [''fqdn_trim''] @ fqdn_tokens
            @ (if fst (normalize_mac mac) then [''mac_trim'', ''mac_normalize'']
               else if strip mac \<noteq> []
               then [''mac_trim'', ''mac_invalid_'' @ snd (snd (normalize_mac mac))]
               else [''mac_trim''])
            @ [''owner_parse_llm'',
               ''device_classify_llm_'' @ snd (classify_device_type_llm be (texts row)),
               ''site_normalize''])"
    unfolding st eq by (simp only: append_assoc)
  then show ?thesis using pr imp by blast
qed

theorem trace_tokens_witness:
  "\<exists>out iss. process_row offline
       [''ip'' \<mapsto> Some ''300.1.1.1'', ''hostname'' \<mapsto> Some ''-web'',
        ''fqdn'' \<mapsto> Some ''web-01.corp.example.com'', ''mac'' \<mapsto> Some ''AABBCCDDEE''] = Inr (out, iss)
     \<and> out_normalization_steps out =
         ''ip_trim|ip_invalid_octet_out_of_range|hostname_trim|hostname_invalid_invalid_format|fqdn_trim|fqdn_validate|mac_trim|mac_invalid_invalid_format|owner_parse_llm|device_classify_llm_medium|site_normalize''"
proof -
  define r :: csv_row where "r = [''ip'' \<mapsto> Some ''300.1.1.1'', ''hostname'' \<mapsto> Some ''-web'',
        ''fqdn'' \<mapsto> Some ''web-01.corp.example.com'', ''mac'' \<mapsto> Some ''AABBCCDDEE'']"
  have c: "cell r ''ip'' = Some ''300.1.1.1''" "cell r ''hostname'' = Some ''-web''"
    "cell r ''fqdn'' = Some ''web-01.corp.example.com''" "cell r ''mac'' = Some ''AABBCCDDEE''"
    "cell r ''device_type'' = Some []" "cell r ''notes'' = Some []" "cell r ''site'' = Some []"
    unfolding r_def by code_simp+
  have v: "fst (validate_fqdn ''web-01.corp.example.com'')" by code_simp
  have j: "join ''|''
           ((if fst (ipv4_validate_and_normalize ''300.1.1.1'')
             then [''ip_trim'', ''ip_parse'', ''ip_normalize'']
             else [''ip_trim'',
                   ''ip_invalid_'' @ snd (snd (snd (ipv4_validate_and_normalize ''300.1.1.1'')))])
            @ (if fst (validate_hostname ''-web'')
               then [''hostname_trim'', ''hostname_validate'']
               else [''hostname_trim'',
                     ''hostname_invalid_'' @ snd (validate_hostname ''-web'')])
            @ [''fqdn_trim''] @ [''fqdn_validate'']
            @ (if fst (normalize_mac ''AABBCCDDEE'') then [''mac_trim'', ''mac_normalize'']
               else if strip ''AABBCCDDEE'' \<noteq> []
               then [''mac_trim'', ''mac_invalid_'' @ snd (snd (normalize_mac ''AABBCCDDEE''))]
               else [''mac_trim''])
            @ [''owner_parse_llm'',
               ''device_classify_llm_'' @ snd (classify_device_type_llm offline (texts r)),
               ''site_normalize''])
     = ''ip_trim|ip_invalid_octet_out_of_range|hostname_trim|hostname_invalid_invalid_format|fqdn_trim|fqdn_validate|mac_trim|mac_invalid_invalid_format|owner_parse_llm|device_classify_llm_medium|site_normalize''"
    unfolding r_def by code_simp
  from trace_tokens [OF c, of offline] v obtain out iss where
    "process_row offline r = Inr (out, iss)"
    "out_normalization_steps out =
         join ''|''
           ((if fst (ipv4_validate_and_normalize ''300.1.1.1'')
             then [''ip_trim'', ''ip_parse'', ''ip_normalize'']
             else [''ip_trim'',
                   ''ip_invalid_'' @ snd (snd (snd (ipv4_validate_and_normalize ''300.1.1.1'')))])
            @ (if fst (validate_hostname ''-web'')
               then [''hostname_trim'', ''hostname_validate'']
               else [''hostname_trim'',
                     ''hostname_invalid_'' @ snd (validate_hostname ''-web'')])
            @ [''fqdn_trim''] @ [''fqdn_validate'']
            @ (if fst (normalize_mac ''AABBCCDDEE'') then [''mac_trim'', ''mac_normalize'']
               else if strip ''AABBCCDDEE'' \<noteq> []
               then [''mac_trim'', ''mac_invalid_'' @ snd (snd (normalize_mac ''AABBCCDDEE''))]
               else [''mac_trim''])
            @ [''owner_parse_llm'',
               ''device_classify_llm_'' @ snd (classify_device_type_llm offline (texts r)),
               ''site_normalize''])"
    by blast
  then show ?thesis unfolding j unfolding r_def by blast
qed

lemma ipv4_missing:
  "s = [] \<or> upper (strip s) \<in> {''N/A'', []} \<Longrightarrow>
     ipv4_validate_and_normalize s = (False, s, [], ''missing'')"
  by (auto simp: ipv4_validate_and_normalize_def)

text \<open>
  Claim C10, as stated, speaks of every input record. For a line of the file that ends
  after an IP column holding \<open>N/A\<close> the reader yields \<open>None\<close> in the other cells: the IP
  stage collects the issue of type \<open>missing\<close>, the hostname stage raises
  \<open>AttributeError\<close>, and no anomaly is built.
\<close>

theorem empty_fields_and_anomalies_counterexample:
  "ip_stage (Some ''N/A'') [] []
     = Inr ([''ip_trim'', ''ip_invalid_missing''],
            [\<lparr>issue_field = ''ip'', issue_type = ''missing'', issue_value = Some ''N/A''\<rparr>],
            [], [])
   \<and> process offline
        [[''source_row_id'' \<mapsto> Some ''2'', ''ip'' \<mapsto> Some ''N/A'', ''hostname'' \<mapsto> None,
          ''fqdn'' \<mapsto> None, ''mac'' \<mapsto> None, ''owner'' \<mapsto> None, ''device_type'' \<mapsto> None,
          ''site'' \<mapsto> None, ''notes'' \<mapsto> None]] []
       = Inl AttributeError"
  by code_simp

text \<open>
  Claim C10, amended. A hostname, FQDN or MAC that is empty after trimming fails its
  validator with reason \<open>missing\<close>. For a row whose cells \<open>ip\<close>, \<open>hostname\<close>, \<open>fqdn\<close>,
  \<open>mac\<close>, \<open>device_type\<close>, \<open>notes\<close> and \<open>site\<close> are text: such an empty field adds no issue
  to the row, so a row whose only failures are such empty fields gets no anomaly; an IP
  that is empty or \<open>N/A\<close> adds an issue of type \<open>missing\<close>, and the row gets an anomaly.
\<close>

theorem empty_fields_and_anomalies:
  assumes "cell row ''ip'' = Some ip" "cell row ''hostname'' = Some hostname"
    "cell row ''fqdn'' = Some fqdn" "cell row ''mac'' = Some mac"
    "cell row ''device_type'' = Some device_type" "cell row ''notes'' = Some notes"
    "cell row ''site'' = Some site"
  shows "(strip s = [] \<longrightarrow>
      validate_hostname s = (False, ''missing'') \<and> validate_fqdn s = (False, ''missing'')
      \<and> normalize_mac s = (False, [], ''missing''))
   \<and> (\<exists>out iss.
         process_row be row = Inr (out, iss)
         \<and> (strip hostname = [] \<longrightarrow> (\<forall>i \<in> set iss. issue_field i \<noteq> ''hostname''))
         \<and> (strip fqdn = [] \<longrightarrow> (\<forall>i \<in> set iss. issue_field i \<noteq> ''fqdn''))
         \<and> (strip mac = [] \<longrightarrow> (\<forall>i \<in> set iss. issue_field i \<noteq> ''mac''))
         \<and> (fst (ipv4_validate_and_normalize ip)
              \<and> (fst (validate_hostname hostname) \<or> strip hostname = [])
              \<and> (fst (validate_fqdn fqdn) \<or> strip fqdn = [])
              \<and> (fst (normalize_mac mac) \<or> strip mac = [])
              \<longrightarrow> iss = [] \<and> process be [row] anomalies = Inr ([out], anomalies))
         \<and> (ip = [] \<or> upper (strip ip) \<in> {''N/A'', []}
              \<longrightarrow> hd iss = \<lparr>issue_field = ''ip'', issue_type = ''missing'', issue_value = Some ip\<rparr>
                  \<and> iss \<noteq> []
                  \<and> process be [row] anomalies =
                      Inr ([out],
                           anomalies @ [\<lparr>source_row_id = cell row ''source_row_id'', issues = iss,
                                          recommended_actions = generate_recommendations iss\<rparr>])))"
proof -
  have v: "strip s = [] \<longrightarrow>
      validate_hostname s = (False, ''missing'') \<and> validate_fqdn s = (False, ''missing'')
      \<and> normalize_mac s = (False, [], ''missing'')"
    by (simp add: validate_hostname_def validate_fqdn_def normalize_mac_def)
  define ipi where "ipi = (if fst (ipv4_validate_and_normalize ip) then []
             else [\<lparr>issue_field = ''ip'',
                    issue_type = snd (snd (snd (ipv4_validate_and_normalize ip))),
                    issue_value = Some ip\<rparr>])"
  define hi where "hi = (if \<not> fst (validate_hostname hostname) \<and> strip hostname \<noteq> []
               then [\<lparr>issue_field = ''hostname'',
                      issue_type = snd (validate_hostname hostname),
                      issue_value = Some hostname\<rparr>]
               else [])"
  define fi where "fi = (if \<not> fst (validate_fqdn fqdn) \<and> strip fqdn \<noteq> []
               then [\<lparr>issue_field = ''fqdn'',
                      issue_type = snd (validate_fqdn fqdn),
                      issue_value = Some fqdn\<rparr>]
               else [])"
  define mi where "mi = (if \<not> fst (normalize_mac mac) \<and> strip mac \<noteq> []
               then [\<lparr>issue_field = ''mac'',
                      issue_type = snd (snd (normalize_mac mac)),
                      issue_value = Some mac\<rparr>]
               else [])"
  from process_row_issues [OF assms, of be] obtain out
    where pr: "process_row be row = Inr (out, ipi @ hi @ fi @ mi)"
    unfolding ipi_def hi_def fi_def mi_def by blast
  have fields: "\<forall>i \<in> set ipi. issue_field i = ''ip''" "\<forall>i \<in> set hi. issue_field i = ''hostname''"
    "\<forall>i \<in> set fi. issue_field i = ''fqdn''" "\<forall>i \<in> set mi. issue_field i = ''mac''"
    by (simp_all add: ipi_def hi_def fi_def mi_def)
  have h: "strip hostname = [] \<longrightarrow> (\<forall>i \<in> set (ipi @ hi @ fi @ mi). issue_field i \<noteq> ''hostname'')"
  proof (intro impI ballI)
    fix i assume e: "strip hostname = []" and i: "i \<in> set (ipi @ hi @ fi @ mi)"
    from e have "hi = []" by (simp add: hi_def)
    with i have "i \<in> set ipi \<or> i \<in> set fi \<or> i \<in> set mi" by simp
    then have "issue_field i \<in> {''ip'', ''fqdn'', ''mac''}" using fields by blast
    then show "issue_field i \<noteq> ''hostname''" by (elim insertE) simp_all
  qed
  have f: "strip fqdn = [] \<longrightarrow> (\<forall>i \<in> set (ipi @ hi @ fi @ mi). issue_field i \<noteq> ''fqdn'')"
  proof (intro impI ballI)
    fix i assume e: "strip fqdn = []" and i: "i \<in> set (ipi @ hi @ fi @ mi)"
    from e have "fi = []" by (simp add: fi_def)
    with i have "i \<in> set ipi \<or> i \<in> set hi \<or> i \<in> set mi" by simp
    then have "issue_field i \<in> {''ip'', ''hostname'', ''mac''}" using fields by blast
    then show "issue_field i \<noteq> ''fqdn''" by (elim insertE) simp_all
  qed
  have m: "strip mac = [] \<longrightarrow> (\<forall>i \<in> set (ipi @ hi @ fi @ mi). issue_field i \<noteq> ''mac'')"
  proof (intro impI ballI)
    fix i assume e: "strip mac = []" and i: "i \<in> set (ipi @ hi @ fi @ mi)"
    from e have "mi = []" by (simp add: mi_def)
    with i have "i \<in> set ipi \<or> i \<in> set hi \<or> i \<in> set fi" by simp
    then have "issue_field i \<in> {''ip'', ''hostname'', ''fqdn''}" using fields by blast
    then show "issue_field i \<noteq> ''mac''" by (elim insertE) simp_all
  qed
  have none: "fst (ipv4_validate_and_normalize ip)
              \<and> (fst (validate_hostname hostname) \<or> strip hostname = [])
              \<and> (fst (validate_fqdn fqdn) \<or> strip fqdn = [])
              \<and> (fst (normalize_mac mac) \<or> strip mac = [])
              \<longrightarrow> ipi @ hi @ fi @ mi = [] \<and> process be [row] anomalies = Inr ([out], anomalies)"
  proof
    assume a: "fst (ipv4_validate_and_normalize ip)
              \<and> (fst (validate_hostname hostname) \<or> strip hostname = [])
              \<and> (fst (validate_fqdn fqdn) \<or> strip fqdn = [])
              \<and> (fst (normalize_mac mac) \<or> strip mac = [])"
    have 1: "ipi = []" using a by (simp add: ipi_def)
    have 2: "hi = []" using a unfolding hi_def by auto
    have 3: "fi = []" using a unfolding fi_def by auto
    have 4: "mi = []" using a unfolding mi_def by auto
    have e: "ipi @ hi @ fi @ mi = []" using 1 2 3 4 by simp
    show "ipi @ hi @ fi @ mi = [] \<and> process be [row] anomalies = Inr ([out], anomalies)"
      using process_single [OF pr, of anomalies] unfolding e by simp
  qed
  have miss: "ip = [] \<or> upper (strip ip) \<in> {''N/A'', []}
              \<longrightarrow> hd (ipi @ hi @ fi @ mi) = \<lparr>issue_field = ''ip'', issue_type = ''missing'', issue_value = Some ip\<rparr>
                  \<and> ipi @ hi @ fi @ mi \<noteq> []
                  \<and> process be [row] anomalies =
                      Inr ([out],
                           anomalies @ [\<lparr>source_row_id = cell row ''source_row_id'', issues = ipi @ hi @ fi @ mi,
                                          recommended_actions = generate_recommendations (ipi @ hi @ fi @ mi)\<rparr>])"
  proof
    assume a: "ip = [] \<or> upper (strip ip) \<in> {''N/A'', []}"
    have "ipi = [\<lparr>issue_field = ''ip'', issue_type = ''missing'', issue_value = Some ip\<rparr>]"
      unfolding ipi_def using ipv4_missing [OF a] by simp
    then show "hd (ipi @ hi @ fi @ mi) = \<lparr>issue_field = ''ip'', issue_type = ''missing'', issue_value = Some ip\<rparr>
                  \<and> ipi @ hi @ fi @ mi \<noteq> []
                  \<and> process be [row] anomalies =
                      Inr ([out],
                           anomalies @ [\<lparr>source_row_id = cell row ''source_row_id'', issues = ipi @ hi @ fi @ mi,
                                          recommended_actions = generate_recommendations (ipi @ hi @ fi @ mi)\<rparr>])"
      using process_single [OF pr, of anomalies] by simp
  qed
  show ?thesis using v pr h f m none miss by blast
qed

theorem empty_fields_and_anomalies_witness:
  "(\<exists>out. process offline [[''ip'' \<mapsto> Some ''10.1.2.3'', ''hostname'' \<mapsto> Some ''  '', ''mac'' \<mapsto> Some []]] []
        = Inr ([out], []))
   \<and> (\<exists>out. process offline [[''ip'' \<mapsto> Some '' n/a '', ''hostname'' \<mapsto> Some ''web-01'']] []
        = Inr ([out], [\<lparr>source_row_id = Some [],
                        issues = [\<lparr>issue_field = ''ip'', issue_type = ''missing'',
                                   issue_value = Some '' n/a ''\<rparr>],
                        recommended_actions = [''Correct or validate IP address format'']\<rparr>]))
   \<and> validate_hostname ''  '' = (False, ''missing'')"
proof -
  define r1 :: csv_row where "r1 = [''ip'' \<mapsto> Some ''10.1.2.3'', ''hostname'' \<mapsto> Some ''  '', ''mac'' \<mapsto> Some []]"
  define r2 :: csv_row where "r2 = [''ip'' \<mapsto> Some '' n/a '', ''hostname'' \<mapsto> Some ''web-01'']"
  have k1: "cell r1 ''ip'' = Some ''10.1.2.3''" "cell r1 ''hostname'' = Some ''  ''"
    "cell r1 ''fqdn'' = Some []" "cell r1 ''mac'' = Some []"
    "cell r1 ''device_type'' = Some []" "cell r1 ''notes'' = Some []" "cell r1 ''site'' = Some []"
    unfolding r1_def by code_simp+
  have k2: "cell r2 ''ip'' = Some '' n/a ''" "cell r2 ''hostname'' = Some ''web-01''"
    "cell r2 ''fqdn'' = Some []" "cell r2 ''mac'' = Some []"
    "cell r2 ''device_type'' = Some []" "cell r2 ''notes'' = Some []" "cell r2 ''site'' = Some []"
    unfolding r2_def by code_simp+
  have c1: "fst (ipv4_validate_and_normalize ''10.1.2.3'')
              \<and> (fst (validate_hostname ''  '') \<or> strip ''  '' = [])
              \<and> (fst (validate_fqdn []) \<or> strip [] = [])
              \<and> (fst (normalize_mac []) \<or> strip [] = [])"
    by code_simp
  have c2: "'' n/a '' = [] \<or> upper (strip '' n/a '') \<in> {''N/A'', []}"
    by code_simp
  have c3: "strip ''  '' = []" by code_simp
  have a: "\<exists>out. process offline [r1] [] = Inr ([out], [])"
    using empty_fields_and_anomalies [OF k1, of "[]" offline "[]"] c1 by blast
  from empty_fields_and_anomalies [OF k2, of "[]" offline "[]"] c2 obtain out iss where
    pr: "process_row offline r2 = Inr (out, iss)"
    and p: "process offline [r2] [] =
                      Inr ([out],
                           [] @ [\<lparr>source_row_id = cell r2 ''source_row_id'', issues = iss,
                                          recommended_actions = generate_recommendations iss\<rparr>])"
    by blast
  have "map_sum id snd (process_row offline r2)
        = Inr [\<lparr>issue_field = ''ip'', issue_type = ''missing'', issue_value = Some '' n/a ''\<rparr>]"
    unfolding r2_def by code_simp
  then have iss: "iss = [\<lparr>issue_field = ''ip'', issue_type = ''missing'', issue_value = Some '' n/a ''\<rparr>]"
    using pr by simp
  have g: "generate_recommendations [\<lparr>issue_field = ''ip'', issue_type = ''missing'', issue_value = Some '' n/a ''\<rparr>]
           = [''Correct or validate IP address format'']"
    by code_simp
  have id: "cell r2 ''source_row_id'' = Some []" unfolding r2_def by code_simp
  have b: "\<exists>out. process offline [r2] []
        = Inr ([out], [\<lparr>source_row_id = Some [],
                        issues = [\<lparr>issue_field = ''ip'', issue_type = ''missing'', issue_value = Some '' n/a ''\<rparr>],
                        recommended_actions = [''Correct or validate IP address format'']\<rparr>])"
    using p unfolding iss g id by auto
  have c: "validate_hostname ''  '' = (False, ''missing'')"
    using empty_fields_and_anomalies [OF k1, of "''  ''" offline "[]"] c3 by blast
  show ?thesis using a b c unfolding r1_def r2_def by blast
qed

end
